theory Spec2Isabelle
  imports Main "HOL-Library.Char_ord" "HOL-Library.List_Lexorder" "HOL-Library.Multiset"
begin

section \<open>Data model\<close>

text \<open>
  The script \<^verbatim>\<open>scripts/update-news.py\<close> works on Python dictionaries with the four string
  keys \<^verbatim>\<open>title\<close>, \<^verbatim>\<open>link\<close>, \<^verbatim>\<open>pubDate\<close> and \<^verbatim>\<open>source\<close>; \<^verbatim>\<open>fetch_rss\<close> builds
  them and \<^verbatim>\<open>normalize_item\<close> returns them. They are a record here. A Python string is a
  sequence of code points; a \<^typ>\<open>char\<close> stands for one code point below 256, and the order on
  strings is the lexicographic order on code points, which is how Python compares strings.
\<close>

record item =
  title :: string
  link :: string
  pubDate :: string
  source :: string

text \<open>
  Exceptions are values. Every constructor stands for a subclass of Python's
  \<^verbatim>\<open>Exception\<close>; the last one is any other such subclass (a network or XML error of the
  fetch), with its message.
\<close>

datatype py_exn = ValueError | KeyError | IndexError | Exception string

section \<open>Configuration\<close>

definition ALLOWED_SOURCES :: "string list" where
  "ALLOWED_SOURCES =
     [''Nikkei Asia'',
      ''Financial Times'',
      ''Bloomberg'',
      ''South China Morning Post'',
      ''CHOSUNBIZ'',
      ''The Korea Times'',
      ''The Korea Herald'',
      ''Reuters'',
      ''The Japan Times'',
      ''Yonhap News Agency'',
      ''CNBC'',
      ''Barron'' @ [CHR 0x27] @ ''s'',
      ''WSJ'']"

definition MAX_ITEMS_PER_FETCH :: nat where
  "MAX_ITEMS_PER_FETCH = 20"

section \<open>String operations of Python used by the script\<close>

text \<open>
  \<^verbatim>\<open>str.isspace\<close> on one code point below 256: the ASCII white space, the separators
  U+001C to U+001F, U+0085 and U+00A0.
\<close>

definition isspace :: "char \<Rightarrow> bool" where
  "isspace c = (of_char c \<in> {9, 10, 11, 12, 13, 28, 29, 30, 31, 32, 133, 160 :: nat})"

text \<open>\<^verbatim>\<open>str.strip()\<close>: white space removed at both ends.\<close>

definition strip :: "string \<Rightarrow> string" where
  "strip s = rev (dropWhile isspace (rev (dropWhile isspace s)))"

text \<open>
  \<^verbatim>\<open>str.lower()\<close> on code points below 256: \<^verbatim>\<open>A\<close> to \<^verbatim>\<open>Z\<close> and the capital letters
  U+00C0 to U+00DE (U+00D7, the multiplication sign, is no letter) move up by 32.
\<close>

definition lower_char :: "char \<Rightarrow> char" where
  "lower_char c =
     (let n = of_char c :: nat
      in if (65 \<le> n \<and> n \<le> 90) \<or> (192 \<le> n \<and> n \<le> 222 \<and> n \<noteq> 215)
         then char_of (n + 32) else c)"

definition lower :: "string \<Rightarrow> string" where
  "lower s = map lower_char s"

text \<open>\<^verbatim>\<open>s.startswith(p)\<close> and the substring test \<^verbatim>\<open>sub in s\<close>.\<close>

definition startswith :: "string \<Rightarrow> string \<Rightarrow> bool" where
  "startswith s p = (take (length p) s = p)"

fun in_str :: "string \<Rightarrow> string \<Rightarrow> bool" where
  "in_str sub [] = (sub = [])"
| "in_str sub (c # cs) = (startswith (c # cs) sub \<or> in_str sub cs)"

text \<open>
  \<^verbatim>\<open>s.rsplit(sep, 1)\<close>: the list of the text before and the text after the last occurrence
  of \<^verbatim>\<open>sep\<close>, or the one-element list of \<^verbatim>\<open>s\<close> when \<^verbatim>\<open>sep\<close> does not occur.
  \<^verbatim>\<open>rfind\<close> is the split position, looked for in the rest of the string first so that
  the rightmost occurrence wins.
\<close>

fun rfind :: "string \<Rightarrow> string \<Rightarrow> nat option" where
  "rfind sep [] = None"
| "rfind sep (c # cs) =
     (case rfind sep cs of
        Some i \<Rightarrow> Some (i + 1)
      | None \<Rightarrow> if startswith (c # cs) sep then Some 0 else None)"

definition rsplit1 :: "string \<Rightarrow> string \<Rightarrow> string list" where
  "rsplit1 sep s =
     (case rfind sep s of
        None \<Rightarrow> [s]
      | Some i \<Rightarrow> [take i s, drop (i + length sep) s])"

section \<open>Source filter\<close>

text \<open>The \<^verbatim>\<open>for src in ALLOWED_SOURCES\<close> loop of \<^verbatim>\<open>is_from_allowed_source\<close>.\<close>

fun allowed_loop :: "string \<Rightarrow> string \<Rightarrow> string list \<Rightarrow> bool" where
  "allowed_loop title_lower source_lower [] = False"
| "allowed_loop title_lower source_lower (src # srcs) =
     (let src_lower = lower src
      in if in_str src_lower title_lower \<or> in_str src_lower source_lower then True
         else allowed_loop title_lower source_lower srcs)"

definition is_from_allowed_source :: "item \<Rightarrow> bool" where
  "is_from_allowed_source it =
     (let title_lower = lower (title it);
          source_lower = lower (source it)
      in allowed_loop title_lower source_lower ALLOWED_SOURCES)"

section \<open>Date normalizer\<close>

subsection \<open>The library call \<^verbatim>\<open>datetime.strptime\<close>\<close>

text \<open>
  \<^verbatim>\<open>parse_date\<close> calls \<^verbatim>\<open>datetime.strptime\<close> of the Python library, which compiles the
  format to a regular expression (\<^verbatim>\<open>TimeRE.pattern\<close> in \<^verbatim>\<open>_strptime.py\<close>), matches it
  at the start of the string with \<^verbatim>\<open>re.IGNORECASE\<close> and converts the named groups. The
  model follows that file, as of CPython 3.11, for the directives the five formats of
  the script use, in the environment of the scheduled run: English day and month names
  and the local time zone UTC, so that \<^verbatim>\<open>%Z\<close> accepts \<^verbatim>\<open>utc\<close> and \<^verbatim>\<open>gmt\<close>.

  Regular expressions have the constructs those patterns need. A backtracking matcher
  tries the alternatives in order and the longer repetition first; \<open>rmatch\<close> lists every
  way to match a prefix of the string in that order, each with its named groups and the
  text left over, so the first element is the match \<^verbatim>\<open>re.match\<close> returns.
\<close>

datatype re =
    Epsilon
  | Lit char
  | LitCS char
  | Digit
  | Range char char
  | OneOf "char list"
  | Spaces
  | Digits nat
  | Seq re re
  | Alt re re
  | Opt re
  | Group char re

definition isdigit :: "char \<Rightarrow> bool" where
  "isdigit c = (CHR ''0'' \<le> c \<and> c \<le> CHR ''9'')"

fun rmatch :: "re \<Rightarrow> string \<Rightarrow> ((char \<times> string) list \<times> string) list" where
  "rmatch Epsilon s = [([], s)]"
| "rmatch (Lit c) s =
     (case s of [] \<Rightarrow> [] | d # ds \<Rightarrow> if lower_char d = lower_char c then [([], ds)] else [])"
| "rmatch (LitCS c) s =
     (case s of [] \<Rightarrow> [] | d # ds \<Rightarrow> if d = c then [([], ds)] else [])"
| "rmatch Digit s =
     (case s of [] \<Rightarrow> [] | d # ds \<Rightarrow> if isdigit d then [([], ds)] else [])"
| "rmatch (Range a b) s =
     (case s of [] \<Rightarrow> [] | d # ds \<Rightarrow> if a \<le> d \<and> d \<le> b then [([], ds)] else [])"
| "rmatch (OneOf cs) s =
     (case s of [] \<Rightarrow> [] | d # ds \<Rightarrow> if d \<in> set cs then [([], ds)] else [])"
| "rmatch Spaces s =
     map (\<lambda>k. ([], drop k s)) (rev [1 ..< Suc (length (takeWhile isspace s))])"
| "rmatch (Digits m) s =
     map (\<lambda>k. ([], drop k s)) (rev [1 ..< Suc (min m (length (takeWhile isdigit s)))])"
| "rmatch (Seq a b) s =
     concat (map (\<lambda>(g, r). map (\<lambda>(g', r'). (g @ g', r')) (rmatch b r)) (rmatch a s))"
| "rmatch (Alt a b) s = rmatch a s @ rmatch b s"
| "rmatch (Opt a) s = rmatch a s @ [([], s)]"
| "rmatch (Group k a) s =
     map (\<lambda>(g, r). (g @ [(k, take (length s - length r) s)], r)) (rmatch a s)"

definition seqs :: "re list \<Rightarrow> re" where
  "seqs rs = foldr Seq rs Epsilon"

fun alts :: "re list \<Rightarrow> re" where
  "alts [] = Epsilon"
| "alts [r] = r"
| "alts (r # rs) = Alt r (alts rs)"

definition lit :: "string \<Rightarrow> re" where
  "lit s = seqs (map Lit s)"

text \<open>
  \<^verbatim>\<open>LocaleTime\<close>: the abbreviated day names, the abbreviated month names after a dummy
  first entry, and the time-zone names, all in lower case.
\<close>

definition a_weekday :: "string list" where
  "a_weekday = [''mon'', ''tue'', ''wed'', ''thu'', ''fri'', ''sat'', ''sun'']"

definition a_month :: "string list" where
  "a_month = [[], ''jan'', ''feb'', ''mar'', ''apr'', ''may'', ''jun'',
              ''jul'', ''aug'', ''sep'', ''oct'', ''nov'', ''dec'']"

definition timezone :: "string list" where
  "timezone = [''utc'', ''gmt'']"

text \<open>
  \<^verbatim>\<open>TimeRE.__seqToRE\<close>: a group of the names as alternatives, the longest first
  (\<^verbatim>\<open>sorted(to_convert, key=len, reverse=True)\<close>, a stable sort).
\<close>

definition seqToRE :: "string list \<Rightarrow> char \<Rightarrow> re" where
  "seqToRE to_convert directive =
     (let to_convert = rev (sort_key length (rev to_convert))
      in if list_all (\<lambda>v. v = []) to_convert then Epsilon
         else Group directive (alts (map lit to_convert)))"

text \<open>
  The table of \<^verbatim>\<open>TimeRE.__init__\<close>, for the directives of the script's formats:
  \<^verbatim>\<open>'d': r"(?P<d>3[0-1]|[1-2]\d|0[1-9]|[1-9]| [1-9])"\<close>,
  \<^verbatim>\<open>'H': r"(?P<H>2[0-3]|[0-1]\d|\d)"\<close>,
  \<^verbatim>\<open>'m': r"(?P<m>1[0-2]|0[1-9]|[1-9])"\<close>,
  \<^verbatim>\<open>'M': r"(?P<M>[0-5]\d|\d)"\<close>,
  \<^verbatim>\<open>'S': r"(?P<S>6[0-1]|[0-5]\d|\d)"\<close>,
  \<^verbatim>\<open>'Y': r"(?P<Y>\d\d\d\d)"\<close>,
  \<^verbatim>\<open>'z': r"(?P<z>[+-]\d\d:?[0-5]\d(:?[0-5]\d(\.\d{1,6})?)?|(?-i:Z))"\<close>,
  and \<^verbatim>\<open>a\<close>, \<^verbatim>\<open>b\<close>, \<^verbatim>\<open>Z\<close> from the names. The library knows more directives; a letter
  outside this table is a \<^verbatim>\<open>KeyError\<close> here as an unknown letter is there.
\<close>

definition TimeRE :: "char \<Rightarrow> re option" where
  "TimeRE c =
     (if c = CHR ''d'' then Some (Group CHR ''d''
        (alts [Seq (Lit CHR ''3'') (Range CHR ''0'' CHR ''1''),
               Seq (Range CHR ''1'' CHR ''2'') Digit,
               Seq (Lit CHR ''0'') (Range CHR ''1'' CHR ''9''),
               Range CHR ''1'' CHR ''9'',
               Seq (Lit CHR '' '') (Range CHR ''1'' CHR ''9'')]))
      else if c = CHR ''H'' then Some (Group CHR ''H''
        (alts [Seq (Lit CHR ''2'') (Range CHR ''0'' CHR ''3''),
               Seq (Range CHR ''0'' CHR ''1'') Digit,
               Digit]))
      else if c = CHR ''m'' then Some (Group CHR ''m''
        (alts [Seq (Lit CHR ''1'') (Range CHR ''0'' CHR ''2''),
               Seq (Lit CHR ''0'') (Range CHR ''1'' CHR ''9''),
               Range CHR ''1'' CHR ''9'']))
      else if c = CHR ''M'' then Some (Group CHR ''M''
        (alts [Seq (Range CHR ''0'' CHR ''5'') Digit,
               Digit]))
      else if c = CHR ''S'' then Some (Group CHR ''S''
        (alts [Seq (Lit CHR ''6'') (Range CHR ''0'' CHR ''1''),
               Seq (Range CHR ''0'' CHR ''5'') Digit,
               Digit]))
      else if c = CHR ''Y'' then Some (Group CHR ''Y'' (seqs [Digit, Digit, Digit, Digit]))
      else if c = CHR ''z'' then Some (Group CHR ''z''
        (Alt (seqs [OneOf ''+-'', Digit, Digit, Opt (Lit CHR '':''),
                    Range CHR ''0'' CHR ''5'', Digit,
                    Opt (seqs [Opt (Lit CHR '':''), Range CHR ''0'' CHR ''5'', Digit,
                               Opt (Seq (Lit CHR ''.'') (Digits 6))])])
             (LitCS CHR ''Z'')))
      else if c = CHR ''a'' then Some (seqToRE a_weekday CHR ''a'')
      else if c = CHR ''b'' then Some (seqToRE (tl a_month) CHR ''b'')
      else if c = CHR ''Z'' then Some (seqToRE timezone CHR ''Z'')
      else None)"

text \<open>
  \<^verbatim>\<open>TimeRE.pattern\<close>: a run of white space in the format becomes \<^verbatim>\<open>\s+\<close>, a directive
  its regular expression, any other character itself. An unknown directive raises
  \<^verbatim>\<open>KeyError\<close> and a \<^verbatim>\<open>%\<close> at the end \<^verbatim>\<open>IndexError\<close>. The flag says that the
  character before was white space.
\<close>

fun pattern_from :: "bool \<Rightarrow> string \<Rightarrow> py_exn + re list" where
  "pattern_from ws [] = Inr []"
| "pattern_from ws (c # cs) =
     (if c = CHR ''%'' then
        (case cs of
           [] \<Rightarrow> Inl IndexError
         | d # ds \<Rightarrow>
             (case TimeRE d of
                None \<Rightarrow> Inl KeyError
              | Some r \<Rightarrow>
                  (case pattern_from False ds of
                     Inl e \<Rightarrow> Inl e
                   | Inr rs \<Rightarrow> Inr (r # rs))))
      else if isspace c then
        (case pattern_from True cs of
           Inl e \<Rightarrow> Inl e
         | Inr rs \<Rightarrow> Inr (if ws then rs else Spaces # rs))
      else
        (case pattern_from False cs of
           Inl e \<Rightarrow> Inl e
         | Inr rs \<Rightarrow> Inr (Lit c # rs)))"

definition pattern :: "string \<Rightarrow> py_exn + re" where
  "pattern format = (case pattern_from False format of Inl e \<Rightarrow> Inl e | Inr rs \<Rightarrow> Inr (seqs rs))"

text \<open>
  A \<^verbatim>\<open>datetime\<close> value: the fields of the constructor; \<open>utcoffset\<close> is the offset of an
  aware value in microseconds, \<open>None\<close> for a naive one.
\<close>

record datetime =
  year :: int
  month :: int
  day :: int
  hour :: int
  minute :: int
  second :: int
  microsecond :: int
  utcoffset :: "int option"

text \<open>
  \<^verbatim>\<open>int(s)\<close> on the texts the conversion meets: white space around the digits is
  ignored, and a text that is not a run of digits raises \<^verbatim>\<open>ValueError\<close>.
\<close>

definition py_int :: "string \<Rightarrow> py_exn + int" where
  "py_int s =
     (let t = strip s
      in if t \<noteq> [] \<and> list_all isdigit t
         then Inr (foldl (\<lambda>n c. 10 * n + (of_char c - 48)) 0 t)
         else Inl ValueError)"

definition bind_exn :: "py_exn + 'a \<Rightarrow> ('a \<Rightarrow> py_exn + 'b) \<Rightarrow> py_exn + 'b" where
  "bind_exn m f = (case m of Inl e \<Rightarrow> Inl e | Inr v \<Rightarrow> f v)"

text \<open>The value of a numeric group, or the default when the format has no such group.\<close>

definition group_int :: "(char \<times> string) list \<Rightarrow> char \<Rightarrow> int \<Rightarrow> py_exn + int" where
  "group_int found_dict k dflt =
     (case map_of found_dict k of None \<Rightarrow> Inr dflt | Some v \<Rightarrow> py_int v)"

text \<open>\<^verbatim>\<open>list.index\<close>, which raises \<^verbatim>\<open>ValueError\<close> when the value is not in the list.\<close>

fun index_of :: "string list \<Rightarrow> string \<Rightarrow> py_exn + int" where
  "index_of [] v = Inl ValueError"
| "index_of (x # xs) v =
     (if x = v then Inr 0 else (case index_of xs v of Inl e \<Rightarrow> Inl e | Inr i \<Rightarrow> Inr (i + 1)))"

text \<open>
  The month: \<^verbatim>\<open>%m\<close> gives its number, \<^verbatim>\<open>%b\<close> the index of its lower-cased name in
  \<^verbatim>\<open>a_month\<close>; the default is 1.
\<close>

definition group_month :: "(char \<times> string) list \<Rightarrow> py_exn + int" where
  "group_month found_dict =
     (case map_of found_dict CHR ''b'' of
        Some v \<Rightarrow> index_of a_month (lower v)
      | None \<Rightarrow> group_int found_dict CHR ''m'' 1)"

text \<open>
  The \<^verbatim>\<open>%z\<close> branch of \<^verbatim>\<open>_strptime\<close>: the offset in microseconds. \<^verbatim>\<open>z[3]\<close> raises
  \<^verbatim>\<open>IndexError\<close> on a text of three characters or fewer; the slices never raise.
\<close>

definition parse_z :: "string \<Rightarrow> py_exn + int" where
  "parse_z z0 =
     (if z0 = ''Z'' then Inr 0
      else if length z0 \<le> 3 then Inl IndexError
      else
        bind_exn
          (if z0 ! 3 = CHR '':'' then
             (let z = take 3 z0 @ drop 4 z0
              in if length z > 5 then
                   (if z ! 5 \<noteq> CHR '':'' then Inl ValueError
                    else Inr (take 5 z @ drop 6 z))
                 else Inr z)
           else Inr z0)
          (\<lambda>z.
            bind_exn (py_int (take 2 (drop 1 z))) (\<lambda>hours.
            bind_exn (py_int (take 2 (drop 3 z))) (\<lambda>minutes.
            bind_exn (if take 2 (drop 5 z) = [] then Inr 0 else py_int (take 2 (drop 5 z))) (\<lambda>seconds.
            (let gmtoff = hours * 60 * 60 + minutes * 60 + seconds;
                 gmtoff_remainder = drop 8 z;
                 gmtoff_remainder_padding = replicate (6 - length gmtoff_remainder) CHR ''0''
             in bind_exn (py_int (gmtoff_remainder @ gmtoff_remainder_padding)) (\<lambda>gmtoff_fraction.
                  (let off = gmtoff * 1000000 + gmtoff_fraction
                   in Inr (if startswith z ''-'' then - off else off)))))))))"

text \<open>\<^verbatim>\<open>_days_in_month\<close> and the checks of the \<^verbatim>\<open>date\<close> and \<^verbatim>\<open>datetime\<close> constructors.\<close>

definition is_leap :: "int \<Rightarrow> bool" where
  "is_leap y = (y mod 4 = 0 \<and> (y mod 100 \<noteq> 0 \<or> y mod 400 = 0))"

definition days_in_month :: "int \<Rightarrow> int \<Rightarrow> int" where
  "days_in_month y m =
     (if m = 2 \<and> is_leap y then 29
      else [-1, 31, 28, 31, 30, 31, 30, 31, 31, 30, 31, 30, 31] ! nat m)"

definition check_date_fields :: "int \<Rightarrow> int \<Rightarrow> int \<Rightarrow> py_exn + unit" where
  "check_date_fields y m d =
     (if \<not> (1 \<le> y \<and> y \<le> 9999) then Inl ValueError
      else if \<not> (1 \<le> m \<and> m \<le> 12) then Inl ValueError
      else if \<not> (1 \<le> d \<and> d \<le> days_in_month y m) then Inl ValueError
      else Inr ())"

definition check_time_fields :: "int \<Rightarrow> int \<Rightarrow> int \<Rightarrow> int \<Rightarrow> py_exn + unit" where
  "check_time_fields h mi s us =
     (if \<not> (0 \<le> h \<and> h \<le> 23) then Inl ValueError
      else if \<not> (0 \<le> mi \<and> mi \<le> 59) then Inl ValueError
      else if \<not> (0 \<le> s \<and> s \<le> 59) then Inl ValueError
      else if \<not> (0 \<le> us \<and> us \<le> 999999) then Inl ValueError
      else Inr ())"

text \<open>
  \<^verbatim>\<open>timezone(timedelta)\<close> accepts an offset strictly between minus and plus 24 hours.
\<close>

definition check_offset :: "int \<Rightarrow> py_exn + unit" where
  "check_offset off =
     (if \<not> (- (24 * 3600 * 1000000 - 1) \<le> off \<and> off \<le> 24 * 3600 * 1000000 - 1)
      then Inl ValueError else Inr ())"

text \<open>
  The conversion of the groups in \<^verbatim>\<open>_strptime\<close> and \<^verbatim>\<open>_strptime_datetime\<close>. The day of
  the week of \<^verbatim>\<open>%a\<close> and the zone name of \<^verbatim>\<open>%Z\<close> are read but do not reach the
  \<^verbatim>\<open>datetime\<close>: only \<^verbatim>\<open>%z\<close> makes the value aware.
\<close>

definition convert :: "(char \<times> string) list \<Rightarrow> py_exn + datetime" where
  "convert found_dict =
     bind_exn (group_int found_dict CHR ''Y'' 1900) (\<lambda>y.
     bind_exn (group_month found_dict) (\<lambda>m.
     bind_exn (group_int found_dict CHR ''d'' 1) (\<lambda>d.
     bind_exn (group_int found_dict CHR ''H'' 0) (\<lambda>h.
     bind_exn (group_int found_dict CHR ''M'' 0) (\<lambda>mi.
     bind_exn (group_int found_dict CHR ''S'' 0) (\<lambda>s.
     bind_exn (case map_of found_dict CHR ''a'' of
                 None \<Rightarrow> Inr None
               | Some v \<Rightarrow> bind_exn (index_of a_weekday (lower v)) (\<lambda>w. Inr (Some w))) (\<lambda>weekday.
     bind_exn (case map_of found_dict CHR ''z'' of
                 None \<Rightarrow> Inr None
               | Some z \<Rightarrow> bind_exn (parse_z z) (\<lambda>off. Inr (Some off))) (\<lambda>gmtoff.
     bind_exn (check_date_fields y m d) (\<lambda>_.
     bind_exn (case gmtoff of None \<Rightarrow> Inr () | Some off \<Rightarrow> check_offset off) (\<lambda>_.
     bind_exn (check_time_fields h mi s 0) (\<lambda>_.
       Inr \<lparr>year = y, month = m, day = d, hour = h, minute = mi, second = s,
            microsecond = 0, utcoffset = gmtoff\<rparr>)))))))))))"

text \<open>
  \<^verbatim>\<open>_strptime\<close>: a format that does not compile, a string the pattern does not match and
  text left after the match all raise \<^verbatim>\<open>ValueError\<close>.
\<close>

definition strptime :: "string \<Rightarrow> string \<Rightarrow> py_exn + datetime" where
  "strptime data_string format =
     (case pattern format of
        Inl e \<Rightarrow> (if e = KeyError \<or> e = IndexError then Inl ValueError else Inl e)
      | Inr format_regex \<Rightarrow>
          (case rmatch format_regex data_string of
             [] \<Rightarrow> Inl ValueError
           | (found_dict, rest) # _ \<Rightarrow>
               if rest \<noteq> [] then Inl ValueError else convert found_dict))"

subsection \<open>\<^verbatim>\<open>datetime.isoformat\<close>\<close>

text \<open>
  The decimal digits of a number that is not negative, and \<^verbatim>\<open>"%0wd"\<close>: padded with
  zeros to at least \<open>w\<close> digits.
\<close>

function digits :: "int \<Rightarrow> string" where
  "digits n = (if n < 10 then [char_of (48 + n)] else digits (n div 10) @ [char_of (48 + n mod 10)])"
  by pat_completeness auto
termination
  by (relation "measure nat") auto

definition zpad :: "nat \<Rightarrow> int \<Rightarrow> string" where
  "zpad w n = replicate (w - length (digits n)) CHR ''0'' @ digits n"

text \<open>\<^verbatim>\<open>_format_offset\<close>, on the offset in microseconds.\<close>

definition format_offset :: "int option \<Rightarrow> string" where
  "format_offset off =
     (case off of
        None \<Rightarrow> []
      | Some o1 \<Rightarrow>
          (let sign = (if o1 < 0 then ''-'' else ''+'');
               a = \<bar>o1\<bar>;
               hh = a div 3600000000;
               mm = (a mod 3600000000) div 60000000;
               ss = (a mod 3600000000) mod 60000000
           in sign @ zpad 2 hh @ '':'' @ zpad 2 mm @
              (if ss \<noteq> 0
               then '':'' @ zpad 2 (ss div 1000000) @
                    (if ss mod 1000000 \<noteq> 0 then ''.'' @ zpad 6 (ss mod 1000000) else [])
               else [])))"

definition isoformat :: "datetime \<Rightarrow> string" where
  "isoformat dt =
     zpad 4 (year dt) @ ''-'' @ zpad 2 (month dt) @ ''-'' @ zpad 2 (day dt) @ ''T'' @
     zpad 2 (hour dt) @ '':'' @ zpad 2 (minute dt) @ '':'' @ zpad 2 (second dt) @
     (if microsecond dt \<noteq> 0 then ''.'' @ zpad 6 (microsecond dt) else []) @
     format_offset (utcoffset dt)"

subsection \<open>\<^verbatim>\<open>parse_date\<close> and the date of \<^verbatim>\<open>normalize_item\<close>\<close>

definition formats :: "string list" where
  "formats =
     [''%a, %d %b %Y %H:%M:%S %Z'',
      ''%a, %d %b %Y %H:%M:%S %z'',
      ''%Y-%m-%dT%H:%M:%S%z'',
      ''%Y-%m-%dT%H:%M:%SZ'',
      ''%Y-%m-%d %H:%M:%S'']"

text \<open>
  The \<^verbatim>\<open>for fmt in formats\<close> loop: \<^verbatim>\<open>except ValueError: continue\<close> catches that
  exception alone, any other one leaves the function.
\<close>

fun parse_loop :: "string \<Rightarrow> string list \<Rightarrow> py_exn + datetime option" where
  "parse_loop date_str [] = Inr None"
| "parse_loop date_str (fmt # fmts) =
     (case strptime date_str fmt of
        Inr dt \<Rightarrow> Inr (Some dt)
      | Inl e \<Rightarrow> if e = ValueError then parse_loop date_str fmts else Inl e)"

definition parse_date :: "string \<Rightarrow> py_exn + datetime option" where
  "parse_date date_str = parse_loop date_str formats"

text \<open>
  The first two statements of \<^verbatim>\<open>normalize_item\<close>:
  \<^verbatim>\<open>dt = parse_date(item["pubDate"]); iso_date = dt.isoformat() if dt else item["pubDate"]\<close>.
\<close>

definition normalize_date :: "string \<Rightarrow> py_exn + string" where
  "normalize_date raw =
     (case parse_date raw of
        Inl e \<Rightarrow> Inl e
      | Inr dt \<Rightarrow> Inr (case dt of Some d \<Rightarrow> isoformat d | None \<Rightarrow> raw))"

section \<open>Title normalizer\<close>

text \<open>
  The \<^verbatim>\<open>while " - " in title\<close> loop of \<^verbatim>\<open>normalize_item\<close> on the variables
  \<^verbatim>\<open>title\<close> and \<^verbatim>\<open>source\<close> (\<open>cur_title\<close> and \<open>cur_source\<close> here, the plain
  names being the fields of the record). The result is \<open>None\<close> when the loop does not end;
  \<^verbatim>\<open>parts[1]\<close> raises \<^verbatim>\<open>IndexError\<close> on a list of one part.
\<close>

partial_function (option) strip_loop :: "string \<Rightarrow> string \<Rightarrow> (py_exn + string \<times> string) option" where
  "strip_loop cur_title cur_source =
     (if in_str '' - '' cur_title then
        (case rsplit1 '' - '' cur_title of
           [p0, p1] \<Rightarrow>
             (let trailing = strip p1;
                  is_source = list_ex (\<lambda>src. lower trailing = lower src) ALLOWED_SOURCES
              in if is_source \<or> (cur_source \<noteq> [] \<and> lower trailing = lower cur_source)
                 then strip_loop (strip p0) (if cur_source = [] then trailing else cur_source)
                 else Some (Inr (cur_title, cur_source)))
         | _ \<Rightarrow> Some (Inl IndexError))
      else Some (Inr (cur_title, cur_source)))"

declare strip_loop.simps [code]

text \<open>
  \<^verbatim>\<open>normalize_item\<close>: the date, the title loop and the returned dictionary. \<open>None\<close> is a
  run that does not return and \<open>Inl\<close> an exception that leaves the function.
\<close>

definition normalize_item :: "item \<Rightarrow> (py_exn + item) option" where
  "normalize_item it =
     (case normalize_date (pubDate it) of
        Inl e \<Rightarrow> Some (Inl e)
      | Inr iso_date \<Rightarrow>
          (case strip_loop (title it) (source it) of
             None \<Rightarrow> None
           | Some (Inl e) \<Rightarrow> Some (Inl e)
           | Some (Inr (new_title, new_source)) \<Rightarrow>
               Some (Inr \<lparr>title = new_title, link = link it,
                          pubDate = iso_date, source = new_source\<rparr>)))"

section \<open>Archive merger\<close>

text \<open>
  \<^verbatim>\<open>existing.sort(key=lambda x: x.get("pubDate", ""), reverse=True)\<close>: Python's sort is stable
  and \<^verbatim>\<open>reverse=True\<close> keeps the original order of items with equal keys, which is what
  reversing, sorting stably in ascending order and reversing again does.
\<close>

definition sort_desc :: "item list \<Rightarrow> item list" where
  "sort_desc xs = rev (sort_key pubDate (rev xs))"

text \<open>
  The \<^verbatim>\<open>for item in new_items\<close> loop of \<^verbatim>\<open>merge_items\<close>, on the state
  (\<^verbatim>\<open>existing\<close>, \<^verbatim>\<open>seen_links\<close>, \<^verbatim>\<open>added\<close>).
\<close>

fun merge_loop :: "item list \<Rightarrow> string set \<Rightarrow> nat \<Rightarrow> item list \<Rightarrow> item list \<times> string set \<times> nat" where
  "merge_loop existing seen_links added [] = (existing, seen_links, added)"
| "merge_loop existing seen_links added (it # new_items) =
     (if link it \<notin> seen_links
      then merge_loop (existing @ [it]) (insert (link it) seen_links) (added + 1) new_items
      else merge_loop existing seen_links added new_items)"

definition merge_items :: "item list \<Rightarrow> item list \<Rightarrow> item list \<times> nat" where
  "merge_items existing new_items =
     (let seen_links = set (map link existing);
          (existing', seen_links', added) = merge_loop existing seen_links 0 new_items
      in (sort_desc existing', added))"

section \<open>Orchestrator\<close>

record company =
  name :: string
  query :: string
  color :: string
  logo :: string

definition COMPANIES :: "company list" where
  "COMPANIES =
     [\<lparr>name = ''Novo Nordisk'', query = ''Novo Nordisk'',
       color = ''var(--purple)'', logo = ''logos/novo-nordisk.png''\<rparr>,
      \<lparr>name = ''Hyundai E&C'', query = ''Hyundai Engineering Construction'',
       color = ''var(--coral)'', logo = ''logos/hyundai-enc.png''\<rparr>,
      \<lparr>name = ''Kiwoom Securities'', query = ''Kiwoom Securities'',
       color = ''var(--teal)'', logo = ''logos/kiwoom-securities.png''\<rparr>,
      \<lparr>name = ''Woori Financial Group'', query = ''Woori Financial Group'',
       color = ''var(--amber)'', logo = ''logos/woori-financial.png''\<rparr>]"

text \<open>
  The archive document \<^verbatim>\<open>data\<close>. The keys \<^verbatim>\<open>companyMeta\<close> and \<^verbatim>\<open>companies\<close> may be
  missing from a loaded file; \<^verbatim>\<open>main\<close> adds them.
\<close>

record meta =
  meta_color :: string
  meta_query :: string
  meta_logo :: string

record archive =
  lastUpdated :: string
  companyMeta :: "(string \<rightharpoonup> meta) option"
  companies :: "(string \<rightharpoonup> item list) option"

text \<open>
  \<^verbatim>\<open>[normalize_item(it) for it in filtered[:MAX_ITEMS_PER_FETCH]]\<close>, item by item.
\<close>

fun normalize_all :: "item list \<Rightarrow> (py_exn + item list) option" where
  "normalize_all [] = Some (Inr [])"
| "normalize_all (it # its) =
     (case normalize_item it of
        None \<Rightarrow> None
      | Some (Inl e) \<Rightarrow> Some (Inl e)
      | Some (Inr x) \<Rightarrow>
          (case normalize_all its of
             None \<Rightarrow> None
           | Some (Inl e) \<Rightarrow> Some (Inl e)
           | Some (Inr xs) \<Rightarrow> Some (Inr (x # xs))))"

text \<open>
  The body of the \<^verbatim>\<open>try\<close> statement for one company, on the list \<^verbatim>\<open>existing\<close> archived
  for it. \<open>fetch q\<close> stands for \<^verbatim>\<open>fetch_rss(google_news_rss_url(q))\<close>, the network call:
  it returns the raw items or raises.
\<close>

definition fetch_and_merge ::
  "(string \<Rightarrow> py_exn + item list) \<Rightarrow> item list \<Rightarrow> company \<Rightarrow> (py_exn + item list \<times> nat) option" where
  "fetch_and_merge fetch existing co =
     (case fetch (query co) of
        Inl e \<Rightarrow> Some (Inl e)
      | Inr raw_items \<Rightarrow>
          (let filtered = filter is_from_allowed_source raw_items
           in case normalize_all (take MAX_ITEMS_PER_FETCH filtered) of
                None \<Rightarrow> None
              | Some (Inl e) \<Rightarrow> Some (Inl e)
              | Some (Inr normalized) \<Rightarrow> Some (Inr (merge_items existing normalized))))"

text \<open>
  The \<^verbatim>\<open>for i, company in enumerate(COMPANIES)\<close> loop on the state
  (\<^verbatim>\<open>data["companies"]\<close>, \<^verbatim>\<open>total_added\<close>). \<^verbatim>\<open>except Exception\<close> catches every
  exception of the body, prints it and goes on with the next company; the state is as
  it was, the fetch and the normalization coming before the first change of the list.
\<close>

fun main_loop ::
  "(string \<Rightarrow> py_exn + item list) \<Rightarrow> (string \<rightharpoonup> item list) \<times> nat \<Rightarrow> company list
     \<Rightarrow> ((string \<rightharpoonup> item list) \<times> nat) option" where
  "main_loop fetch (comps, total_added) [] = Some (comps, total_added)"
| "main_loop fetch (comps, total_added) (co # cos) =
     (let existing = (case comps (name co) of None \<Rightarrow> [] | Some l \<Rightarrow> l)
      in case fetch_and_merge fetch existing co of
           None \<Rightarrow> None
         | Some (Inl e) \<Rightarrow> main_loop fetch (comps, total_added) cos
         | Some (Inr (merged, added)) \<Rightarrow>
             main_loop fetch (comps(name co \<mapsto> merged), total_added + added) cos)"

text \<open>The upsert of the company metadata at the start of \<^verbatim>\<open>main\<close>.\<close>

definition store_meta :: "(string \<rightharpoonup> meta) \<Rightarrow> company list \<Rightarrow> (string \<rightharpoonup> meta)" where
  "store_meta m cos =
     foldl (\<lambda>m co. m(name co \<mapsto> \<lparr>meta_color = color co, meta_query = query co, meta_logo = logo co\<rparr>))
       m cos"

text \<open>
  \<^verbatim>\<open>main\<close> on the loaded document: the exit status it returns and the document
  \<^verbatim>\<open>save_data\<close> writes, with \<open>now\<close> the time stamp of the write. Reading and writing
  the file are taken to succeed; the script has no handler for their errors, which would
  end the run.
\<close>

definition main ::
  "(string \<Rightarrow> py_exn + item list) \<Rightarrow> string \<Rightarrow> archive \<Rightarrow> (int \<times> archive) option" where
  "main fetch now data =
     (let metas = store_meta (case companyMeta data of None \<Rightarrow> Map.empty | Some m \<Rightarrow> m) COMPANIES;
          comps = (case companies data of None \<Rightarrow> Map.empty | Some c \<Rightarrow> c)
      in case main_loop fetch (comps, 0) COMPANIES of
           None \<Rightarrow> None
         | Some (comps', total_added) \<Rightarrow>
             Some (0, \<lparr>lastUpdated = now, companyMeta = Some metas, companies = Some comps'\<rparr>))"

text \<open>
  What a run leaves behind: the exit status, the list archived for an entity in the
  saved document, the list archived for it in the loaded document, and the list
  \<^verbatim>\<open>data["companies"].get(name, [])\<close> the merge starts from.
\<close>

definition exit_status :: "(int \<times> archive) option \<Rightarrow> int option" where
  "exit_status run = (case run of None \<Rightarrow> None | Some (status, saved) \<Rightarrow> Some status)"

definition archived :: "(int \<times> archive) option \<Rightarrow> string \<Rightarrow> item list option" where
  "archived run n =
     (case run of
        None \<Rightarrow> None
      | Some (status, saved) \<Rightarrow> (case companies saved of None \<Rightarrow> None | Some m \<Rightarrow> m n))"

definition archived_before :: "archive \<Rightarrow> string \<Rightarrow> item list option" where
  "archived_before data n = (case companies data of None \<Rightarrow> None | Some m \<Rightarrow> m n)"

definition existing_list :: "archive \<Rightarrow> string \<Rightarrow> item list" where
  "existing_list data n = (case archived_before data n of None \<Rightarrow> [] | Some l \<Rightarrow> l)"

text \<open>
  A sample network for the examples: the fetch for the first company times out, the
  one for the third returns two allow-listed items that share a link, the one for the
  fourth returns three items, two of them allow-listed, with links of their own.
\<close>

definition sample_fetch :: "string \<Rightarrow> py_exn + item list" where
  "sample_fetch q =
     (if q = ''Novo Nordisk'' then Inl (Exception ''timed out'')
      else if q = ''Kiwoom Securities'' then
        Inr [\<lparr>title = ''Kiwoom profit rises - Reuters'', link = ''L1'',
              pubDate = ''Thu, 27 Feb 2026 10:30:00 GMT'', source = ''Reuters''\<rparr>,
             \<lparr>title = ''Kiwoom profit rises, Reuters reports'', link = ''L1'',
              pubDate = ''Thu, 27 Feb 2026 11:30:00 GMT'', source = []\<rparr>]
      else if q = ''Woori Financial Group'' then
        Inr [\<lparr>title = ''Woori expands - Bloomberg'', link = ''L2'',
              pubDate = ''Thu, 27 Feb 2026 10:30:00 GMT'', source = ''Bloomberg''\<rparr>,
             \<lparr>title = ''Woori opens branch - Local Daily'', link = ''L3'',
              pubDate = ''Thu, 27 Feb 2026 11:30:00 GMT'', source = ''Local Daily''\<rparr>,
             \<lparr>title = ''Woori names chief - CNBC'', link = ''L4'',
              pubDate = ''Thu, 27 Feb 2026 12:30:00 GMT'', source = []\<rparr>]
      else Inr [])"

definition sample_data :: archive where
  "sample_data = \<lparr>lastUpdated = [], companyMeta = None, companies = Some Map.empty\<rparr>"

section \<open>Notions used in the statements and their proofs\<close>

text \<open>
  \<open>last_segment t h g\<close>: \<open>g\<close> is the text after the last occurrence of the delimiter
  \<^verbatim>\<open>" - "\<close> in \<open>t\<close>, and \<open>h\<close> the text before it.
\<close>

definition last_segment :: "string \<Rightarrow> string \<Rightarrow> string \<Rightarrow> bool" where
  "last_segment t h g = (t = h @ '' - '' @ g \<and> \<not> in_str '' - '' (''- '' @ g))"

text \<open>
  \<open>is_attribution src g\<close>: the segment \<open>g\<close>, white space at its ends apart, equals an
  allow-listed name or the source \<open>src\<close>, which is not empty, when letter case is ignored.
  \<open>stripped t gs t'\<close>: removing the segments \<open>gs\<close> from the end of \<open>t\<close>, the last
  segment first, each with its delimiter and the white space around what is left,
  gives \<open>t'\<close>.
\<close>

definition is_attribution :: "string \<Rightarrow> string \<Rightarrow> bool" where
  "is_attribution src g =
     ((\<exists>a \<in> set ALLOWED_SOURCES. lower (strip g) = lower a) \<or>
      (src \<noteq> [] \<and> lower (strip g) = lower src))"

fun stripped :: "string \<Rightarrow> string list \<Rightarrow> string \<Rightarrow> bool" where
  "stripped t [] t' = (t' = t)"
| "stripped t (g # gs) t' =
     (let h = take (length t - length ('' - '' @ g)) t
      in last_segment t h g \<and> stripped (strip h) gs t')"

text \<open>
  For the regular expressions: the least length of a match, expressions whose matches
  carry no group, and expressions whose matches give the group \<^verbatim>\<open>z\<close> either the text
  \<^verbatim>\<open>Z\<close> or more than three characters.
\<close>

fun minlen :: "re \<Rightarrow> nat" where
  "minlen Epsilon = 0"
| "minlen (Lit c) = 1"
| "minlen (LitCS c) = 1"
| "minlen Digit = 1"
| "minlen (Range a b) = 1"
| "minlen (OneOf cs) = 1"
| "minlen Spaces = 1"
| "minlen (Digits m) = 1"
| "minlen (Seq a b) = minlen a + minlen b"
| "minlen (Alt a b) = min (minlen a) (minlen b)"
| "minlen (Opt a) = 0"
| "minlen (Group k a) = minlen a"

definition nogroups :: "re \<Rightarrow> bool" where
  "nogroups r = (\<forall>s g rest. (g, rest) \<in> set (rmatch r s) \<longrightarrow> g = [])"

definition zgood :: "re \<Rightarrow> bool" where
  "zgood r = (\<forall>s g rest v. (g, rest) \<in> set (rmatch r s) \<longrightarrow> (CHR ''z'', v) \<in> set g \<longrightarrow>
                v = ''Z'' \<or> 3 < length v)"

text \<open>A result that is a value or the exception \<^verbatim>\<open>ValueError\<close>.\<close>

definition only_ValueError :: "py_exn + 'a \<Rightarrow> bool" where
  "only_ValueError m = (\<forall>e. m = Inl e \<longrightarrow> e = ValueError)"


section \<open>Properties of the string operations\<close>

lemma startswith_iff: "startswith s p \<longleftrightarrow> (\<exists>ys. s = p @ ys)"
proof
  assume "startswith s p"
  then have "s = p @ drop (length p) s"
    unfolding startswith_def by (metis append_take_drop_id)
  then show "\<exists>ys. s = p @ ys" ..
next
  assume "\<exists>ys. s = p @ ys"
  then show "startswith s p"
    unfolding startswith_def by auto
qed

lemma in_str_iff: "in_str sub s \<longleftrightarrow> (\<exists>xs ys. s = xs @ sub @ ys)"
proof (induction s)
  case Nil
  then show ?case by auto
next
  case (Cons c cs)
  show ?case
  proof
    assume "in_str sub (c # cs)"
    then consider "startswith (c # cs) sub" | "in_str sub cs" by auto
    then show "\<exists>xs ys. c # cs = xs @ sub @ ys"
    proof cases
      case 1
      then obtain ys where "c # cs = sub @ ys" by (auto simp: startswith_iff)
      then have "c # cs = [] @ sub @ ys" by simp
      then show ?thesis by blast
    next
      case 2
      then obtain xs ys where "cs = xs @ sub @ ys" using Cons.IH by auto
      then have "c # cs = (c # xs) @ sub @ ys" by simp
      then show ?thesis by blast
    qed
  next
    assume "\<exists>xs ys. c # cs = xs @ sub @ ys"
    then obtain xs ys where e: "c # cs = xs @ sub @ ys" by auto
    show "in_str sub (c # cs)"
    proof (cases xs)
      case Nil
      with e have "startswith (c # cs) sub" by (auto simp: startswith_iff)
      then show ?thesis by simp
    next
      case (Cons x xs')
      with e have "cs = xs' @ sub @ ys" by simp
      then have "in_str sub cs" using Cons.IH by auto
      then show ?thesis by simp
    qed
  qed
qed

lemma rfind_None: "sep \<noteq> [] \<Longrightarrow> rfind sep s = None \<longleftrightarrow> \<not> in_str sep s"
  by (induction s) (auto split: option.splits)

lemma rfind_append: "sep \<noteq> [] \<Longrightarrow> \<not> in_str sep (tl (sep @ g)) \<Longrightarrow> rfind sep (h @ sep @ g) = Some (length h)"
proof (induction h)
  case Nil
  then obtain c sep' where s: "sep = c # sep'" by (cases sep) auto
  with Nil have "rfind sep (sep' @ g) = None" by (simp add: rfind_None)
  moreover have "startswith (sep @ g) sep" by (auto simp: startswith_iff)
  ultimately show ?case using s by simp
next
  case (Cons x h)
  then show ?case by simp
qed

lemma rfind_Some:
  "sep \<noteq> [] \<Longrightarrow> rfind sep s = Some i \<Longrightarrow>
   s = take i s @ sep @ drop (i + length sep) s \<and> \<not> in_str sep (tl (sep @ drop (i + length sep) s))"
proof (induction s arbitrary: i)
  case Nil
  then show ?case by simp
next
  case (Cons c cs)
  show ?case
  proof (cases "rfind sep cs")
    case None
    with Cons.prems have sw: "startswith (c # cs) sep" and i: "i = 0"
      by (auto split: if_splits)
    from sw obtain ys where e: "c # cs = sep @ ys" by (auto simp: startswith_iff)
    then have d: "drop (length sep) (c # cs) = ys" by (metis append_eq_conv_conj)
    from e Cons.prems(1) have "cs = tl (sep @ ys)" by (metis list.sel(3))
    with None Cons.prems(1) have "\<not> in_str sep (tl (sep @ ys))" by (simp add: rfind_None)
    with e d i show ?thesis by simp
  next
    case (Some j)
    with Cons.prems have i: "i = Suc j" by simp
    from Cons.IH [OF Cons.prems(1) Some] i show ?thesis by simp
  qed
qed

lemma last_segment_rsplit1: "last_segment t h g \<Longrightarrow> rsplit1 '' - '' t = [h, g]"
proof -
  assume a: "last_segment t h g"
  then have "rfind '' - '' t = Some (length h)"
    using rfind_append [of "'' - ''" g h] by (simp add: last_segment_def)
  with a show ?thesis by (simp add: rsplit1_def last_segment_def)
qed

lemma rsplit1_last_segment:
  assumes "in_str '' - '' t"
  shows "\<exists>h g. rsplit1 '' - '' t = [h, g] \<and> last_segment t h g"
proof -
  from assms obtain i where i: "rfind '' - '' t = Some i"
    using rfind_None [of "'' - ''" t] by (cases "rfind '' - '' t") auto
  from rfind_Some [OF _ i] have "last_segment t (take i t) (drop (Suc (Suc (Suc i))) t)"
    by (simp add: last_segment_def)
  moreover from i have "rsplit1 '' - '' t = [take i t, drop (Suc (Suc (Suc i))) t]"
    by (simp add: rsplit1_def)
  ultimately show ?thesis by blast
qed

lemma last_segment_in_str: "last_segment t h g \<Longrightarrow> in_str '' - '' t"
  unfolding last_segment_def in_str_iff by blast

lemma length_strip: "length (strip s) \<le> length s"
proof -
  have "length (strip s) \<le> length (dropWhile isspace s)"
    unfolding strip_def by (metis length_dropWhile_le length_rev)
  also have "\<dots> \<le> length s" by (rule length_dropWhile_le)
  finally show ?thesis .
qed



section \<open>Properties of the title loop\<close>

lemma stripped_Cons: "last_segment t h g \<Longrightarrow> stripped (strip h) gs t' \<Longrightarrow> stripped t (g # gs) t'"
  by (simp add: last_segment_def)

lemma last_segment_unique:
  assumes "last_segment t h g" and "last_segment t h' g'"
  shows "h' = h \<and> g' = g"
  using last_segment_rsplit1 [OF assms(1)] last_segment_rsplit1 [OF assms(2)] by simp

lemma last_segment_length: "last_segment t h g \<Longrightarrow> length (strip h) < length t"
  using length_strip [of h] by (simp add: last_segment_def)

lemma lower_Nil_iff: "lower s = [] \<longleftrightarrow> s = []"
  by (simp add: lower_def)

lemma allowed_nonempty: "a \<in> set ALLOWED_SOURCES \<Longrightarrow> a \<noteq> []"
  by (auto simp: ALLOWED_SOURCES_def)

lemma is_attribution_adopted:
  assumes "is_attribution [] g"
  shows "strip g \<noteq> [] \<and> is_attribution (strip g) g' = is_attribution [] g'"
proof -
  from assms obtain a where a: "a \<in> set ALLOWED_SOURCES" "lower (strip g) = lower a"
    by (auto simp: is_attribution_def)
  from a allowed_nonempty [OF a(1)] have "strip g \<noteq> []"
    by (metis lower_Nil_iff)
  moreover from a have "is_attribution (strip g) g' = is_attribution [] g'"
    by (auto simp: is_attribution_def)
  ultimately show ?thesis by simp
qed

lemma strip_loop_step:
  assumes "last_segment t h g"
  shows "strip_loop t s =
           (if is_attribution s g
            then strip_loop (strip h) (if s = [] then strip g else s)
            else Some (Inr (t, s)))"
  using last_segment_in_str [OF assms] last_segment_rsplit1 [OF assms]
  by (auto simp: strip_loop.simps [of t s] is_attribution_def list_ex_iff Let_def)

lemma strip_loop_done: "\<not> in_str '' - '' t \<Longrightarrow> strip_loop t s = Some (Inr (t, s))"
  by (simp add: strip_loop.simps [of t s])

lemma strip_loop_spec:
  "\<exists>t' s' gs. strip_loop t s = Some (Inr (t', s')) \<and> stripped t gs t' \<and>
     (\<forall>g \<in> set gs. is_attribution s g) \<and>
     (\<forall>h g. last_segment t' h g \<longrightarrow> \<not> is_attribution s g) \<and>
     s' = (if s = [] \<and> gs \<noteq> [] then strip (hd gs) else s)"
proof (induction "length t" arbitrary: t s rule: less_induct)
  case less
  show ?case
  proof (cases "in_str '' - '' t")
    case False
    then have "strip_loop t s = Some (Inr (t, s))" by (rule strip_loop_done)
    moreover have "stripped t [] t" by simp
    moreover have "\<forall>h g. last_segment t h g \<longrightarrow> \<not> is_attribution s g"
      using False last_segment_in_str by blast
    ultimately show ?thesis by force
  next
    case True
    then obtain h g where ls: "last_segment t h g"
      using rsplit1_last_segment by blast
    show ?thesis
    proof (cases "is_attribution s g")
      case False
      then have "strip_loop t s = Some (Inr (t, s))"
        using strip_loop_step [OF ls] by simp
      moreover have "stripped t [] t" by simp
      moreover have "\<forall>h' g'. last_segment t h' g' \<longrightarrow> \<not> is_attribution s g'"
        using False last_segment_unique [OF ls] by blast
      ultimately show ?thesis by force
    next
      case True
      define s2 where "s2 = (if s = [] then strip g else s)"
      have step: "strip_loop t s = strip_loop (strip h) s2"
        using True strip_loop_step [OF ls] by (simp add: s2_def)
      have same: "is_attribution s2 g' = is_attribution s g'" for g'
      proof (cases "s = []")
        case True
        with \<open>is_attribution s g\<close> have "is_attribution [] g" by simp
        from is_attribution_adopted [OF this, of g'] True show ?thesis by (simp add: s2_def)
      next
        case False
        then show ?thesis by (simp add: s2_def)
      qed
      have s2_ne: "s2 \<noteq> []"
      proof (cases "s = []")
        case True
        with \<open>is_attribution s g\<close> have "is_attribution [] g" by simp
        from is_attribution_adopted [OF this, of g] True show ?thesis by (simp add: s2_def)
      next
        case False
        then show ?thesis by (simp add: s2_def)
      qed
      from less [OF last_segment_length [OF ls], of s2]
      obtain t' s' gs where r: "strip_loop (strip h) s2 = Some (Inr (t', s'))"
        and st: "stripped (strip h) gs t'"
        and al: "\<forall>g \<in> set gs. is_attribution s2 g"
        and mx: "\<forall>h g. last_segment t' h g \<longrightarrow> \<not> is_attribution s2 g"
        and sr: "s' = (if s2 = [] \<and> gs \<noteq> [] then strip (hd gs) else s2)"
        by blast
      have "strip_loop t s = Some (Inr (t', s'))" using step r by simp
      moreover have "stripped t (g # gs) t'" using ls st by (rule stripped_Cons)
      moreover have "\<forall>x \<in> set (g # gs). is_attribution s x" using True al same by simp
      moreover have "\<forall>h g. last_segment t' h g \<longrightarrow> \<not> is_attribution s g" using mx same by simp
      moreover have "s' = (if s = [] \<and> g # gs \<noteq> [] then strip (hd (g # gs)) else s)"
        using sr s2_ne by (simp add: s2_def)
      ultimately show ?thesis by blast
    qed
  qed
qed

section \<open>Properties of the date normalizer\<close>

lemma rmatch_minlen: "(g, rest) \<in> set (rmatch r s) \<Longrightarrow> minlen r + length rest \<le> length s"
proof (induction r arbitrary: g rest s)
  case (Seq a b)
  then obtain g1 r1 g2 where a: "(g1, r1) \<in> set (rmatch a s)" and b: "(g2, rest) \<in> set (rmatch b r1)"
    by auto
  from Seq.IH(1) [OF a] Seq.IH(2) [OF b] show ?case by simp
next
  case (Alt a b)
  then consider "(g, rest) \<in> set (rmatch a s)" | "(g, rest) \<in> set (rmatch b s)" by auto
  then show ?case
  proof cases
    case 1
    from Alt.IH(1) [OF this] show ?thesis by simp
  next
    case 2
    from Alt.IH(2) [OF this] show ?thesis by simp
  qed
next
  case (Group k a)
  then obtain g0 where "(g0, rest) \<in> set (rmatch a s)" by auto
  from Group.IH [OF this] show ?case by simp
next
  case (Opt a)
  then consider "(g, rest) \<in> set (rmatch a s)" | "rest = s" by auto
  then show ?case
  proof cases
    case 1
    from Opt.IH [OF this] show ?thesis by simp
  next
    case 2
    then show ?thesis by simp
  qed
next
  case Spaces
  then obtain k where "rest = drop k s" "1 \<le> k" "k \<le> length (takeWhile isspace s)"
    by auto
  with length_takeWhile_le [of isspace s] show ?case by simp
next
  case (Digits m)
  then obtain k where "rest = drop k s" "1 \<le> k" "k \<le> length (takeWhile isdigit s)"
    by auto
  with length_takeWhile_le [of isdigit s] show ?case by simp
qed (auto split: list.splits if_splits)

lemma nogroups_atoms:
  "nogroups Epsilon" "nogroups (Lit c)" "nogroups (LitCS c)" "nogroups Digit"
  "nogroups (Range a b)" "nogroups (OneOf cs)" "nogroups Spaces" "nogroups (Digits m)"
  unfolding nogroups_def by (auto split: list.splits if_splits)

lemma nogroups_Seq: "nogroups a \<Longrightarrow> nogroups b \<Longrightarrow> nogroups (Seq a b)"
  unfolding nogroups_def by fastforce

lemma nogroups_Alt: "nogroups a \<Longrightarrow> nogroups b \<Longrightarrow> nogroups (Alt a b)"
  unfolding nogroups_def by fastforce

lemma nogroups_Opt: "nogroups a \<Longrightarrow> nogroups (Opt a)"
  unfolding nogroups_def by fastforce

lemma nogroups_seqs: "\<forall>r \<in> set rs. nogroups r \<Longrightarrow> nogroups (seqs rs)"
  unfolding seqs_def by (induction rs) (auto simp: nogroups_atoms nogroups_Seq)

lemma nogroups_alts: "\<forall>r \<in> set rs. nogroups r \<Longrightarrow> nogroups (alts rs)"
  by (induction rs rule: alts.induct) (auto simp: nogroups_atoms nogroups_Alt)

lemma nogroups_lit: "nogroups (lit s)"
  unfolding lit_def by (rule nogroups_seqs) (auto simp: nogroups_atoms)

lemma zgood_nogroups: "nogroups r \<Longrightarrow> zgood r"
  unfolding nogroups_def zgood_def by fastforce

lemma zgood_Group_other: "nogroups a \<Longrightarrow> k \<noteq> CHR ''z'' \<Longrightarrow> zgood (Group k a)"
  unfolding nogroups_def zgood_def by fastforce

lemma zgood_Seq: "zgood a \<Longrightarrow> zgood b \<Longrightarrow> zgood (Seq a b)"
  unfolding zgood_def by fastforce

lemma zgood_seqs: "\<forall>r \<in> set rs. zgood r \<Longrightarrow> zgood (seqs rs)"
  unfolding seqs_def by (induction rs) (auto simp: zgood_nogroups nogroups_atoms zgood_Seq)

lemma zgood_seqToRE:
  assumes "k \<noteq> CHR ''z''"
  shows "zgood (seqToRE names k)"
proof -
  have "nogroups (alts (map lit xs))" for xs
    by (rule nogroups_alts) (auto simp: nogroups_lit)
  then have "zgood (Group k (alts (map lit xs)))" for xs
    using assms by (rule zgood_Group_other)
  moreover have "zgood Epsilon"
    by (simp add: zgood_nogroups nogroups_atoms)
  ultimately show ?thesis
    by (simp add: seqToRE_def Let_def)
qed


lemma zgood_z:
  assumes "nogroups A" and "3 < minlen A"
  shows "zgood (Group CHR ''z'' (Alt A (LitCS CHR ''Z'')))"
  unfolding zgood_def
proof (intro allI impI)
  fix s g rest v
  assume m: "(g, rest) \<in> set (rmatch (Group CHR ''z'' (Alt A (LitCS CHR ''Z''))) s)"
    and v: "(CHR ''z'', v) \<in> set g"
  from m obtain g0 where g: "g = g0 @ [(CHR ''z'', take (length s - length rest) s)]"
    and c: "(g0, rest) \<in> set (rmatch A s) \<or> (g0, rest) \<in> set (rmatch (LitCS CHR ''Z'') s)"
    by auto
  from c have g0: "g0 = []"
  proof
    assume "(g0, rest) \<in> set (rmatch A s)"
    with assms(1) show ?thesis unfolding nogroups_def by blast
  next
    assume "(g0, rest) \<in> set (rmatch (LitCS CHR ''Z'') s)"
    then show ?thesis by (auto split: list.splits if_splits)
  qed
  with g v have ve: "v = take (length s - length rest) s" by simp
  from c show "v = ''Z'' \<or> 3 < length v"
  proof
    assume "(g0, rest) \<in> set (rmatch A s)"
    from rmatch_minlen [OF this] assms(2) have "3 < length s - length rest" by arith
    with ve show ?thesis by simp
  next
    assume "(g0, rest) \<in> set (rmatch (LitCS CHR ''Z'') s)"
    then have "s = CHR ''Z'' # rest" by (auto split: list.splits if_splits)
    with ve show ?thesis by simp
  qed
qed

lemma zgood_TimeRE: "TimeRE d = Some r \<Longrightarrow> zgood r"
proof -
  assume a: "TimeRE d = Some r"
  have ng: "nogroups (alts rs)" if "\<forall>x \<in> set rs. nogroups x" for rs
    using that by (rule nogroups_alts)
  note ngs = nogroups_atoms nogroups_Seq nogroups_Opt nogroups_Alt
  consider "d = CHR ''z''" | "d \<in> {CHR ''a'', CHR ''b'', CHR ''Z''}"
    | "d \<in> {CHR ''d'', CHR ''H'', CHR ''m'', CHR ''M'', CHR ''S'', CHR ''Y''}"
    using a by (auto simp: TimeRE_def split: if_splits)
  then show ?thesis
  proof cases
    case 1
    with a show ?thesis
      by (auto simp: TimeRE_def seqs_def intro!: zgood_z ngs)
  next
    case 2
    with a show ?thesis
      by (auto simp: TimeRE_def intro!: zgood_seqToRE)
  next
    case 3
    with a show ?thesis
      by (auto simp: TimeRE_def seqs_def intro!: zgood_Group_other ngs)
  qed
qed

lemma zgood_pattern_from: "pattern_from ws fmt = Inr rs \<Longrightarrow> r \<in> set rs \<Longrightarrow> zgood r"
proof (induction ws fmt arbitrary: rs rule: pattern_from.induct)
  case (1 ws)
  then show ?case by simp
next
  case (2 ws c cs)
  then show ?case
    by (auto split: if_splits list.splits option.splits sum.splits
             simp: zgood_TimeRE zgood_nogroups nogroups_atoms)
qed

lemma pattern_from_error: "pattern_from ws fmt = Inl e \<Longrightarrow> e = KeyError \<or> e = IndexError"
proof (induction ws fmt rule: pattern_from.induct)
  case (1 ws)
  then show ?case by simp
next
  case (2 ws c cs)
  then show ?case
    by (auto split: if_splits list.splits option.splits sum.splits)
qed

lemma only_ValueError_simps [simp]:
  "only_ValueError (Inr v)" "only_ValueError (Inl ValueError)"
  by (simp_all add: only_ValueError_def)

lemma only_ValueError_bind:
  "only_ValueError m \<Longrightarrow> (\<And>v. only_ValueError (f v)) \<Longrightarrow> only_ValueError (bind_exn m f)"
  unfolding only_ValueError_def bind_exn_def by (auto split: sum.splits)

lemma only_ValueError_py_int: "only_ValueError (py_int s)"
  by (simp add: py_int_def Let_def)

lemma only_ValueError_group_int: "only_ValueError (group_int found k d)"
  by (simp add: group_int_def only_ValueError_py_int split: option.splits)

lemma only_ValueError_index_of: "only_ValueError (index_of xs v)"
  by (induction xs) (auto simp: only_ValueError_def split: sum.splits)

lemma only_ValueError_group_month: "only_ValueError (group_month found)"
  by (simp add: group_month_def only_ValueError_group_int only_ValueError_index_of split: option.splits)

lemma only_ValueError_checks:
  "only_ValueError (check_date_fields y m d)" "only_ValueError (check_time_fields h mi s us)"
  "only_ValueError (check_offset off)"
  by (simp_all add: check_date_fields_def check_time_fields_def check_offset_def)

lemma only_ValueError_parse_z:
  assumes "z = ''Z'' \<or> 3 < length z"
  shows "only_ValueError (parse_z z)"
proof (cases "z = ''Z''")
  case True
  then show ?thesis by (simp add: parse_z_def)
next
  case False
  with assms have "\<not> length z \<le> 3" by simp
  with False show ?thesis
    unfolding parse_z_def
    by (auto simp: Let_def only_ValueError_py_int intro!: only_ValueError_bind)
qed

lemma only_ValueError_convert:
  assumes "\<And>z. map_of found CHR ''z'' = Some z \<Longrightarrow> z = ''Z'' \<or> 3 < length z"
  shows "only_ValueError (convert found)"
  unfolding convert_def
  by (intro only_ValueError_bind only_ValueError_group_int only_ValueError_group_month
        only_ValueError_checks)
     (auto split: option.splits
           intro!: only_ValueError_bind only_ValueError_index_of only_ValueError_parse_z
                   only_ValueError_checks assms)

lemma strptime_only_ValueError: "only_ValueError (strptime s fmt)"
proof (cases "pattern fmt")
  case (Inl e)
  then have "e = KeyError \<or> e = IndexError"
    using pattern_from_error by (auto simp: pattern_def split: sum.splits)
  with Inl show ?thesis by (auto simp: strptime_def)
next
  case (Inr re)
  then obtain rs where rs: "pattern_from False fmt = Inr rs" and re: "re = seqs rs"
    by (auto simp: pattern_def split: sum.splits)
  have zg: "zgood re"
    unfolding re using zgood_pattern_from [OF rs] by (auto intro: zgood_seqs)
  show ?thesis
  proof (cases "rmatch re s")
    case Nil
    with Inr show ?thesis by (simp add: strptime_def)
  next
    case (Cons p ps)
    obtain found rest where p: "p = (found, rest)" by (cases p)
    have "(found, rest) \<in> set (rmatch re s)" using Cons p by simp
    with zg have "z = ''Z'' \<or> 3 < length z" if "map_of found CHR ''z'' = Some z" for z
      using that map_of_SomeD unfolding zgood_def by fast
    then have "only_ValueError (convert found)" by (rule only_ValueError_convert)
    with Inr Cons p show ?thesis by (simp add: strptime_def)
  qed
qed

lemma strptime_cases: "strptime s fmt = Inl ValueError \<or> (\<exists>dt. strptime s fmt = Inr dt)"
  using strptime_only_ValueError [of s fmt] unfolding only_ValueError_def
  by (cases "strptime s fmt") auto

lemma parse_loop_first:
  "(\<forall>f \<in> set pre. \<exists>e. strptime s f = Inl e) \<Longrightarrow> strptime s fmt = Inr dt \<Longrightarrow>
   parse_loop s (pre @ fmt # post) = Inr (Some dt)"
proof (induction pre)
  case Nil
  then show ?case by simp
next
  case (Cons f pre)
  from Cons.prems(1) strptime_cases [of s f] have "strptime s f = Inl ValueError" by auto
  with Cons show ?case by simp
qed

lemma parse_loop_none:
  "(\<forall>f \<in> set fmts. \<exists>e. strptime s f = Inl e) \<Longrightarrow> parse_loop s fmts = Inr None"
proof (induction fmts)
  case Nil
  then show ?case by simp
next
  case (Cons f fmts)
  from Cons.prems strptime_cases [of s f] have "strptime s f = Inl ValueError" by auto
  with Cons show ?case by simp
qed

lemma parse_loop_returns: "\<exists>r. parse_loop s fmts = Inr r"
proof (induction fmts)
  case Nil
  then show ?case by simp
next
  case (Cons f fmts)
  with strptime_cases [of s f] show ?case by auto
qed

lemma normalize_date_returns: "\<exists>r. normalize_date raw = Inr r"
  using parse_loop_returns [of raw formats] by (auto simp: normalize_date_def parse_date_def)


section \<open>Properties of \<^verbatim>\<open>normalize_item\<close>\<close>

lemma normalize_item_result:
  obtains t' s' gs iso where
    "normalize_item it = Some (Inr \<lparr>title = t', link = link it, pubDate = iso, source = s'\<rparr>)"
    "normalize_date (pubDate it) = Inr iso"
    "stripped (title it) gs t'"
    "\<forall>g \<in> set gs. is_attribution (source it) g"
    "\<forall>h g. last_segment t' h g \<longrightarrow> \<not> is_attribution (source it) g"
    "s' = (if source it = [] \<and> gs \<noteq> [] then strip (hd gs) else source it)"
proof -
  obtain iso where d: "normalize_date (pubDate it) = Inr iso"
    using normalize_date_returns by blast
  obtain t' s' gs where l: "strip_loop (title it) (source it) = Some (Inr (t', s'))"
    and r: "stripped (title it) gs t'" "\<forall>g \<in> set gs. is_attribution (source it) g"
      "\<forall>h g. last_segment t' h g \<longrightarrow> \<not> is_attribution (source it) g"
      "s' = (if source it = [] \<and> gs \<noteq> [] then strip (hd gs) else source it)"
    using strip_loop_spec [of "title it" "source it"] by blast
  from d l have "normalize_item it = Some (Inr \<lparr>title = t', link = link it, pubDate = iso, source = s'\<rparr>)"
    by (simp add: normalize_item_def)
  from this d r show ?thesis by (rule that)
qed

lemma strip_loop_market:
  "strip_loop ''Market Rallies - CHOSUNBIZ - Chosunbiz'' s =
     Some (Inr (''Market Rallies'', if s = [] then ''Chosunbiz'' else s))"
proof -
  have l1: "last_segment ''Market Rallies - CHOSUNBIZ - Chosunbiz''
              ''Market Rallies - CHOSUNBIZ'' ''Chosunbiz''"
    by code_simp
  have l2: "last_segment ''Market Rallies - CHOSUNBIZ'' ''Market Rallies'' ''CHOSUNBIZ''"
    by code_simp
  have "\<exists>a \<in> set ALLOWED_SOURCES. lower (strip ''Chosunbiz'') = lower a"
    by code_simp
  then have a1: "is_attribution s1 ''Chosunbiz''" for s1
    by (simp add: is_attribution_def)
  have "\<exists>a \<in> set ALLOWED_SOURCES. lower (strip ''CHOSUNBIZ'') = lower a"
    by code_simp
  then have a2: "is_attribution s2 ''CHOSUNBIZ''" for s2
    by (simp add: is_attribution_def)
  have s1: "strip ''Market Rallies - CHOSUNBIZ'' = ''Market Rallies - CHOSUNBIZ''"
    by code_simp
  have s2: "strip ''Market Rallies'' = ''Market Rallies''"
    by code_simp
  have s3: "strip ''Chosunbiz'' = ''Chosunbiz''"
    by code_simp
  have n: "\<not> in_str '' - '' ''Market Rallies''"
    by code_simp
  show ?thesis
    by (simp add: strip_loop_step [OF l1] strip_loop_step [OF l2] a1 a2 s1 s2 s3
          strip_loop_done [OF n])
qed

text \<open>
  Claim C1, as amended. For every raw item the title loop ends, and what it returns is
  described by a list \<open>gs\<close> of removed segments: each of them was the last
  \<^verbatim>\<open>" - "\<close>-separated segment when it was removed, and each, with the white space at
  its ends trimmed, equals an allow-listed name or the item's source field, which is
  not empty, when letter case is ignored. The loop stops at the first segment that is
  no such attribution: the last segment of the returned title, if it has one, is none.
  What is removed is those segments, their delimiters and the white space at the ends
  of the remaining title. When the source field was empty and a segment was removed,
  the returned source is the trimmed first removed segment; otherwise it is the source
  field. A title \<^verbatim>\<open>"Market Rallies - CHOSUNBIZ - Chosunbiz"\<close> becomes
  \<^verbatim>\<open>"Market Rallies"\<close>.
\<close>

theorem normalize_title_strips_attributions:
  "(\<exists>r gs. normalize_item it = Some (Inr r) \<and>
      stripped (title it) gs (title r) \<and>
      (\<forall>g \<in> set gs. is_attribution (source it) g) \<and>
      (\<forall>h g. last_segment (title r) h g \<longrightarrow> \<not> is_attribution (source it) g) \<and>
      source r = (if source it = [] \<and> gs \<noteq> [] then strip (hd gs) else source it)) \<and>
   (title it = ''Market Rallies - CHOSUNBIZ - Chosunbiz'' \<longrightarrow>
      (\<exists>r. normalize_item it = Some (Inr r) \<and> title r = ''Market Rallies''))"
proof
  obtain t' s' gs iso where
    r: "normalize_item it = Some (Inr \<lparr>title = t', link = link it, pubDate = iso, source = s'\<rparr>)"
      "stripped (title it) gs t'"
      "\<forall>g \<in> set gs. is_attribution (source it) g"
      "\<forall>h g. last_segment t' h g \<longrightarrow> \<not> is_attribution (source it) g"
      "s' = (if source it = [] \<and> gs \<noteq> [] then strip (hd gs) else source it)"
    by (rule normalize_item_result)
  then show "\<exists>r gs. normalize_item it = Some (Inr r) \<and>
      stripped (title it) gs (title r) \<and>
      (\<forall>g \<in> set gs. is_attribution (source it) g) \<and>
      (\<forall>h g. last_segment (title r) h g \<longrightarrow> \<not> is_attribution (source it) g) \<and>
      source r = (if source it = [] \<and> gs \<noteq> [] then strip (hd gs) else source it)"
    by (intro exI [of _ "\<lparr>title = t', link = link it, pubDate = iso, source = s'\<rparr>"] exI [of _ gs])
       simp
next
  show "title it = ''Market Rallies - CHOSUNBIZ - Chosunbiz'' \<longrightarrow>
      (\<exists>r. normalize_item it = Some (Inr r) \<and> title r = ''Market Rallies'')"
  proof
    assume t: "title it = ''Market Rallies - CHOSUNBIZ - Chosunbiz''"
    obtain iso where d: "normalize_date (pubDate it) = Inr iso"
      using normalize_date_returns by blast
    from d t show "\<exists>r. normalize_item it = Some (Inr r) \<and> title r = ''Market Rallies''"
      by (simp add: normalize_item_def strip_loop_market)
  qed
qed

theorem normalize_title_strips_attributions_witness:
  "normalize_item \<lparr>title = ''Market Rallies - CHOSUNBIZ - Chosunbiz'', link = ''L1'',
                   pubDate = ''not a date'', source = []\<rparr>
     = Some (Inr \<lparr>title = ''Market Rallies'', link = ''L1'',
                  pubDate = ''not a date'', source = ''Chosunbiz''\<rparr>) \<and>
   stripped ''Market Rallies - CHOSUNBIZ - Chosunbiz'' [''Chosunbiz'', ''CHOSUNBIZ''] ''Market Rallies'' \<and>
   is_attribution [] ''Chosunbiz'' \<and> is_attribution [] ''CHOSUNBIZ'' \<and>
   (\<exists>r. normalize_item \<lparr>title = ''Market Rallies - CHOSUNBIZ - Chosunbiz'', link = ''L1'',
                         pubDate = ''not a date'', source = []\<rparr> = Some (Inr r) \<and>
        title r = ''Market Rallies'')"
proof -
  have a: "normalize_item \<lparr>title = ''Market Rallies - CHOSUNBIZ - Chosunbiz'', link = ''L1'',
                   pubDate = ''not a date'', source = []\<rparr>
     = Some (Inr \<lparr>title = ''Market Rallies'', link = ''L1'',
                  pubDate = ''not a date'', source = ''Chosunbiz''\<rparr>)"
    by code_simp
  have b: "stripped ''Market Rallies - CHOSUNBIZ - Chosunbiz'' [''Chosunbiz'', ''CHOSUNBIZ''] ''Market Rallies''"
    by code_simp
  have c: "is_attribution [] ''Chosunbiz''" "is_attribution [] ''CHOSUNBIZ''"
    by code_simp+
  from normalize_title_strips_attributions
         [of "\<lparr>title = ''Market Rallies - CHOSUNBIZ - Chosunbiz'', link = ''L1'',
              pubDate = ''not a date'', source = []\<rparr>"]
  have "\<exists>r. normalize_item \<lparr>title = ''Market Rallies - CHOSUNBIZ - Chosunbiz'', link = ''L1'',
                         pubDate = ''not a date'', source = []\<rparr> = Some (Inr r) \<and>
        title r = ''Market Rallies''"
    by simp
  with a b c show ?thesis by blast
qed

text \<open>
  Claim C1 as stated fails: in the title \<^verbatim>\<open>"A -  Reuters"\<close> the last segment is
  \<^verbatim>\<open>" Reuters"\<close>, with a space in front. It equals no allow-listed name when letter
  case is ignored, and the source field is empty, yet the segment is removed, and the
  source becomes the trimmed text \<^verbatim>\<open>"Reuters"\<close>: the script compares and adopts
  \<^verbatim>\<open>parts[1].strip()\<close>.
\<close>

theorem normalize_title_untrimmed_segment_counterexample:
  "last_segment ''A -  Reuters'' ''A'' '' Reuters'' \<and>
   lower '' Reuters'' \<notin> set (map lower ALLOWED_SOURCES) \<and>
   normalize_item \<lparr>title = ''A -  Reuters'', link = ''L1'', pubDate = ''not a date'', source = []\<rparr>
     = Some (Inr \<lparr>title = ''A'', link = ''L1'', pubDate = ''not a date'', source = ''Reuters''\<rparr>)"
  by code_simp

text \<open>
  Claim C5. The title loop ends on every title and source, so \<^verbatim>\<open>normalize_item\<close>
  returns for every item, and a title in which the delimiter \<^verbatim>\<open>" - "\<close> does not occur
  is returned unchanged.
\<close>

theorem normalize_title_terminates:
  "(\<exists>r. strip_loop t s = Some (Inr r)) \<and>
   (\<exists>r. normalize_item it = Some (Inr r) \<and>
        ((\<forall>xs ys. title it \<noteq> xs @ '' - '' @ ys) \<longrightarrow> title r = title it))"
proof
  show "\<exists>r. strip_loop t s = Some (Inr r)"
    using strip_loop_spec [of t s] by blast
next
  obtain iso where d: "normalize_date (pubDate it) = Inr iso"
    using normalize_date_returns by blast
  obtain t' s' where l: "strip_loop (title it) (source it) = Some (Inr (t', s'))"
    using strip_loop_spec [of "title it" "source it"] by blast
  have "t' = title it" if "\<forall>xs ys. title it \<noteq> xs @ '' - '' @ ys"
  proof -
    from that have "\<not> in_str '' - '' (title it)" by (simp add: in_str_iff)
    from strip_loop_done [OF this, of "source it"] l show ?thesis by simp
  qed
  with d l show "\<exists>r. normalize_item it = Some (Inr r) \<and>
        ((\<forall>xs ys. title it \<noteq> xs @ '' - '' @ ys) \<longrightarrow> title r = title it)"
    by (simp add: normalize_item_def)
qed

theorem normalize_title_terminates_witness:
  "(\<forall>xs ys. ''Talks Continue -for now'' \<noteq> xs @ '' - '' @ ys) \<and>
   (\<exists>r. normalize_item \<lparr>title = ''Talks Continue -for now'', link = ''L1'',
                         pubDate = ''not a date'', source = ''Reuters''\<rparr> = Some (Inr r) \<and>
        title r = ''Talks Continue -for now'')"
proof -
  have "\<not> in_str '' - '' ''Talks Continue -for now''" by code_simp
  then have h: "\<forall>xs ys. ''Talks Continue -for now'' \<noteq> xs @ '' - '' @ ys"
    by (simp only: in_str_iff) blast
  from normalize_title_terminates
         [of _ _ "\<lparr>title = ''Talks Continue -for now'', link = ''L1'',
                   pubDate = ''not a date'', source = ''Reuters''\<rparr>"] h
  show ?thesis by simp
qed

text \<open>
  Claim C10. \<^verbatim>\<open>normalize_item\<close> returns the link of its input unchanged, and a source
  field that is not empty is returned unchanged as well.
\<close>

theorem normalize_item_preserves_link_and_source:
  "\<exists>r. normalize_item it = Some (Inr r) \<and> link r = link it \<and>
       (source it \<noteq> [] \<longrightarrow> source r = source it)"
proof -
  obtain t' s' gs iso where
    "normalize_item it = Some (Inr \<lparr>title = t', link = link it, pubDate = iso, source = s'\<rparr>)"
    "s' = (if source it = [] \<and> gs \<noteq> [] then strip (hd gs) else source it)"
    by (rule normalize_item_result)
  then show ?thesis by simp
qed

theorem normalize_item_preserves_link_and_source_witness:
  "''Reuters'' \<noteq> [] \<and>
   (\<exists>r. normalize_item \<lparr>title = ''Acme Corp Wins Award - WSJ'', link = ''L1'',
                         pubDate = ''not a date'', source = ''Reuters''\<rparr> = Some (Inr r) \<and>
        link r = ''L1'' \<and> source r = ''Reuters'')"
  using normalize_item_preserves_link_and_source
          [of "\<lparr>title = ''Acme Corp Wins Award - WSJ'', link = ''L1'',
               pubDate = ''not a date'', source = ''Reuters''\<rparr>"]
  by simp

section \<open>Properties of the source filter\<close>

lemma allowed_loop_iff:
  "allowed_loop title_lower source_lower srcs \<longleftrightarrow>
     (\<exists>src \<in> set srcs. in_str (lower src) title_lower \<or> in_str (lower src) source_lower)"
  by (induction srcs) (auto simp: Let_def)

text \<open>
  Claim C8. \<^verbatim>\<open>is_from_allowed_source\<close> returns true exactly when some allow-listed name,
  in lower case, is a substring of the lower-cased title or of the lower-cased source
  of the item. In particular an item with an empty source is accepted when its title
  matches. The function is a function of the item alone and returns nothing but the
  truth value: it has no effect.
\<close>

theorem is_from_allowed_source_iff:
  "(is_from_allowed_source it \<longleftrightarrow>
      (\<exists>a \<in> set ALLOWED_SOURCES.
         (\<exists>xs ys. lower (title it) = xs @ lower a @ ys) \<or>
         (\<exists>xs ys. lower (source it) = xs @ lower a @ ys))) \<and>
   (source it = [] \<and> (\<exists>a \<in> set ALLOWED_SOURCES. \<exists>xs ys. lower (title it) = xs @ lower a @ ys)
      \<longrightarrow> is_from_allowed_source it)"
proof -
  have "is_from_allowed_source it \<longleftrightarrow>
      (\<exists>a \<in> set ALLOWED_SOURCES.
         (\<exists>xs ys. lower (title it) = xs @ lower a @ ys) \<or>
         (\<exists>xs ys. lower (source it) = xs @ lower a @ ys))"
    by (simp add: is_from_allowed_source_def allowed_loop_iff in_str_iff)
  then show ?thesis by blast
qed

theorem is_from_allowed_source_iff_witness:
  "source \<lparr>title = ''Talks continue, Reuters says'', link = ''L1'', pubDate = ''not a date'', source = []\<rparr> = [] \<and>
   ''Reuters'' \<in> set ALLOWED_SOURCES \<and>
   lower ''Talks continue, Reuters says'' = ''talks continue, '' @ lower ''Reuters'' @ '' says'' \<and>
   is_from_allowed_source
     \<lparr>title = ''Talks continue, Reuters says'', link = ''L1'', pubDate = ''not a date'', source = []\<rparr>"
proof -
  have a: "''Reuters'' \<in> set ALLOWED_SOURCES" by code_simp
  have b: "lower ''Talks continue, Reuters says'' = ''talks continue, '' @ lower ''Reuters'' @ '' says''"
    by code_simp
  from a b have "\<exists>a \<in> set ALLOWED_SOURCES. \<exists>xs ys.
      lower (title \<lparr>title = ''Talks continue, Reuters says'', link = ''L1'', pubDate = ''not a date'', source = []\<rparr>)
        = xs @ lower a @ ys"
    by (metis item.select_convs(1))
  with is_from_allowed_source_iff
         [of "\<lparr>title = ''Talks continue, Reuters says'', link = ''L1'', pubDate = ''not a date'', source = []\<rparr>",
          THEN conjunct2]
  have "is_from_allowed_source
     \<lparr>title = ''Talks continue, Reuters says'', link = ''L1'', pubDate = ''not a date'', source = []\<rparr>"
    by simp
  with a b show ?thesis by simp
qed

section \<open>Properties of the date of an item\<close>

text \<open>
  Claim C6. The date normalization returns a string for every raw string and never
  raises. It goes through the formats in their order: the result is the ISO form of
  the value of the first format that parses, and the raw string itself when no format
  parses, as for \<^verbatim>\<open>"not a date"\<close>.
\<close>

theorem normalize_date_never_raises:
  "(\<exists>r. normalize_date raw = Inr r) \<and>
   (\<forall>pre fmt post dt.
      formats = pre @ fmt # post \<and> (\<forall>f \<in> set pre. \<exists>e. strptime raw f = Inl e) \<and>
      strptime raw fmt = Inr dt \<longrightarrow> normalize_date raw = Inr (isoformat dt)) \<and>
   ((\<forall>f \<in> set formats. \<exists>e. strptime raw f = Inl e) \<longrightarrow> normalize_date raw = Inr raw) \<and>
   normalize_date ''not a date'' = Inr ''not a date''"
proof (intro conjI allI impI)
  show "\<exists>r. normalize_date raw = Inr r" by (rule normalize_date_returns)
next
  fix pre fmt post dt
  assume "formats = pre @ fmt # post \<and> (\<forall>f \<in> set pre. \<exists>e. strptime raw f = Inl e) \<and>
      strptime raw fmt = Inr dt"
  then show "normalize_date raw = Inr (isoformat dt)"
    using parse_loop_first [of pre raw fmt dt post] by (simp add: normalize_date_def parse_date_def)
next
  assume "\<forall>f \<in> set formats. \<exists>e. strptime raw f = Inl e"
  then show "normalize_date raw = Inr raw"
    using parse_loop_none [of formats raw] by (simp add: normalize_date_def parse_date_def)
next
  show "normalize_date ''not a date'' = Inr ''not a date''" by code_simp
qed

theorem normalize_date_never_raises_witness:
  "strptime ''27 Feb 2026'' ''%a, %d %b %Y %H:%M:%S %Z'' = Inl ValueError \<and>
   strptime ''27 Feb 2026'' ''%a, %d %b %Y %H:%M:%S %z'' = Inl ValueError \<and>
   strptime ''27 Feb 2026'' ''%Y-%m-%dT%H:%M:%S%z'' = Inl ValueError \<and>
   strptime ''27 Feb 2026'' ''%Y-%m-%dT%H:%M:%SZ'' = Inl ValueError \<and>
   strptime ''27 Feb 2026'' ''%Y-%m-%d %H:%M:%S'' = Inl ValueError \<and>
   normalize_date ''27 Feb 2026'' = Inr ''27 Feb 2026'' \<and>
   formats = [''%a, %d %b %Y %H:%M:%S %Z'', ''%a, %d %b %Y %H:%M:%S %z'']
             @ ''%Y-%m-%dT%H:%M:%S%z'' # [''%Y-%m-%dT%H:%M:%SZ'', ''%Y-%m-%d %H:%M:%S''] \<and>
   strptime ''2026-02-27T10:30:00+0900'' ''%a, %d %b %Y %H:%M:%S %Z'' = Inl ValueError \<and>
   strptime ''2026-02-27T10:30:00+0900'' ''%a, %d %b %Y %H:%M:%S %z'' = Inl ValueError \<and>
   strptime ''2026-02-27T10:30:00+0900'' ''%Y-%m-%dT%H:%M:%S%z'' =
     Inr \<lparr>year = 2026, month = 2, day = 27, hour = 10, minute = 30, second = 0,
          microsecond = 0, utcoffset = Some 32400000000\<rparr> \<and>
   normalize_date ''2026-02-27T10:30:00+0900'' = Inr ''2026-02-27T10:30:00+09:00''"
proof -
  have n1: "strptime ''27 Feb 2026'' ''%a, %d %b %Y %H:%M:%S %Z'' = Inl ValueError"
    by code_simp
  have n2: "strptime ''27 Feb 2026'' ''%a, %d %b %Y %H:%M:%S %z'' = Inl ValueError"
    by code_simp
  have n3: "strptime ''27 Feb 2026'' ''%Y-%m-%dT%H:%M:%S%z'' = Inl ValueError"
    by code_simp
  have n4: "strptime ''27 Feb 2026'' ''%Y-%m-%dT%H:%M:%SZ'' = Inl ValueError"
    by code_simp
  have n5: "strptime ''27 Feb 2026'' ''%Y-%m-%d %H:%M:%S'' = Inl ValueError"
    by code_simp
  have none': "\<forall>f \<in> set formats. \<exists>e. strptime ''27 Feb 2026'' f = Inl e"
    using n1 n2 n3 n4 n5 by (simp add: formats_def)
  have fs: "formats = [''%a, %d %b %Y %H:%M:%S %Z'', ''%a, %d %b %Y %H:%M:%S %z'']
             @ ''%Y-%m-%dT%H:%M:%S%z'' # [''%Y-%m-%dT%H:%M:%SZ'', ''%Y-%m-%d %H:%M:%S'']"
    by (simp add: formats_def)
  have f1: "strptime ''2026-02-27T10:30:00+0900'' ''%a, %d %b %Y %H:%M:%S %Z'' = Inl ValueError"
    by code_simp
  have f2: "strptime ''2026-02-27T10:30:00+0900'' ''%a, %d %b %Y %H:%M:%S %z'' = Inl ValueError"
    by code_simp
  have f3: "strptime ''2026-02-27T10:30:00+0900'' ''%Y-%m-%dT%H:%M:%S%z'' =
     Inr \<lparr>year = 2026, month = 2, day = 27, hour = 10, minute = 30, second = 0,
          microsecond = 0, utcoffset = Some 32400000000\<rparr>"
    by code_simp
  have iso: "isoformat \<lparr>year = 2026, month = 2, day = 27, hour = 10, minute = 30, second = 0,
          microsecond = 0, utcoffset = Some 32400000000\<rparr> = ''2026-02-27T10:30:00+09:00''"
    by code_simp
  have pre: "\<forall>f \<in> set [''%a, %d %b %Y %H:%M:%S %Z'', ''%a, %d %b %Y %H:%M:%S %z''].
               \<exists>e. strptime ''2026-02-27T10:30:00+0900'' f = Inl e"
    using f1 f2 by simp
  from normalize_date_never_raises [of "''27 Feb 2026''"] none'
  have a: "normalize_date ''27 Feb 2026'' = Inr ''27 Feb 2026''" by blast
  from normalize_date_never_raises [of "''2026-02-27T10:30:00+0900''"] fs pre f3
  have "normalize_date ''2026-02-27T10:30:00+0900'' =
          Inr (isoformat \<lparr>year = 2026, month = 2, day = 27, hour = 10, minute = 30, second = 0,
          microsecond = 0, utcoffset = Some 32400000000\<rparr>)"
    by blast
  with iso have b: "normalize_date ''2026-02-27T10:30:00+0900'' = Inr ''2026-02-27T10:30:00+09:00''"
    by simp
  from n1 n2 n3 n4 n5 a fs f1 f2 f3 b show ?thesis by blast
qed

text \<open>
  Claim C7. The raw date \<^verbatim>\<open>"Thu, 27 Feb 2026 10:30:00 GMT"\<close> parses, with the first
  format, and the result is not the raw string but \<^verbatim>\<open>"2026-02-27T10:30:00"\<close>, the
  ISO-8601 form of that date and time of day. The value has no time zone, \<^verbatim>\<open>%Z\<close>
  setting none, so the text carries no offset: it gives the fields of the instant
  in GMT.
\<close>

theorem normalize_date_rfc822_example:
  "parse_date ''Thu, 27 Feb 2026 10:30:00 GMT'' =
     Inr (Some \<lparr>year = 2026, month = 2, day = 27, hour = 10, minute = 30, second = 0,
                microsecond = 0, utcoffset = None\<rparr>) \<and>
   normalize_date ''Thu, 27 Feb 2026 10:30:00 GMT'' = Inr ''2026-02-27T10:30:00'' \<and>
   normalize_date ''Thu, 27 Feb 2026 10:30:00 GMT'' \<noteq> Inr ''Thu, 27 Feb 2026 10:30:00 GMT''"
  by code_simp

section \<open>Properties of the archive merger\<close>

lemma set_sort_desc: "set (sort_desc xs) = set xs"
  by (simp add: sort_desc_def)

lemma length_sort_desc: "length (sort_desc xs) = length xs"
  by (simp add: sort_desc_def)

lemma mset_sort_desc: "mset (sort_desc xs) = mset xs"
  by (simp add: sort_desc_def)

lemma distinct_links_sort_desc: "distinct (map link (sort_desc xs)) = distinct (map link xs)"
proof -
  have "mset (map link (sort_desc xs)) = mset (map link xs)"
    by (simp add: mset_sort_desc)
  then show ?thesis
    by (rule mset_eq_imp_distinct_iff)
qed

lemma sorted_sort_desc: "sorted_wrt (\<lambda>a b. pubDate b \<le> pubDate a) (sort_desc xs)"
proof -
  have "sorted (map pubDate (sort_key pubDate (rev xs)))"
    by (rule sorted_sort_key)
  then have "sorted_wrt (\<lambda>a b. pubDate a \<le> pubDate b) (sort_key pubDate (rev xs))"
    by (simp add: sorted_wrt_map)
  then show ?thesis
    by (simp add: sort_desc_def sorted_wrt_rev)
qed

lemma merge_loop_length:
  "merge_loop ex seen a new = (ex', seen', a') \<Longrightarrow> length ex' + a = length ex + a'"
proof (induction new arbitrary: ex seen a)
  case Nil
  then show ?case by simp
next
  case (Cons it new)
  show ?case
  proof (cases "link it \<in> seen")
    case True
    with Cons.prems have "merge_loop ex seen a new = (ex', seen', a')" by simp
    from Cons.IH [OF this] show ?thesis .
  next
    case False
    with Cons.prems
    have "merge_loop (ex @ [it]) (insert (link it) seen) (a + 1) new = (ex', seen', a')"
      by simp
    from Cons.IH [OF this] show ?thesis by simp
  qed
qed

lemma merge_loop_links:
  "merge_loop ex seen a new = (ex', seen', a') \<Longrightarrow> seen = link ` set ex \<Longrightarrow>
   seen' = link ` set ex' \<and> link ` set ex' = link ` set ex \<union> link ` set new"
proof (induction new arbitrary: ex seen a)
  case Nil
  then show ?case by auto
next
  case (Cons it new)
  show ?case
  proof (cases "link it \<in> seen")
    case True
    with Cons.prems have "merge_loop ex seen a new = (ex', seen', a')" by simp
    from Cons.IH [OF this Cons.prems(2)] True Cons.prems(2) show ?thesis by auto
  next
    case False
    with Cons.prems
    have m: "merge_loop (ex @ [it]) (insert (link it) seen) (a + 1) new = (ex', seen', a')"
      by simp
    have "insert (link it) seen = link ` set (ex @ [it])"
      using Cons.prems(2) by simp
    from Cons.IH [OF m this] show ?thesis by auto
  qed
qed

lemma merge_loop_distinct:
  "merge_loop ex seen a new = (ex', seen', a') \<Longrightarrow> seen = link ` set ex \<Longrightarrow>
   distinct (map link ex) \<Longrightarrow> distinct (map link ex')"
proof (induction new arbitrary: ex seen a)
  case Nil
  then show ?case by simp
next
  case (Cons it new)
  show ?case
  proof (cases "link it \<in> seen")
    case True
    with Cons.prems have "merge_loop ex seen a new = (ex', seen', a')" by simp
    from Cons.IH [OF this Cons.prems(2) Cons.prems(3)] show ?thesis .
  next
    case False
    with Cons.prems
    have m: "merge_loop (ex @ [it]) (insert (link it) seen) (a + 1) new = (ex', seen', a')"
      by simp
    have s: "insert (link it) seen = link ` set (ex @ [it])"
      using Cons.prems(2) by simp
    have d: "distinct (map link (ex @ [it]))"
      using Cons.prems(2,3) False by simp
    from Cons.IH [OF m s d] show ?thesis .
  qed
qed

lemma merge_loop_all_seen:
  "link ` set new \<subseteq> seen \<Longrightarrow> merge_loop ex seen a new = (ex, seen, a)"
  by (induction new arbitrary: ex seen a) auto

lemma merge_items_unfold:
  "merge_loop E (link ` set E) 0 B = (ex', seen', a') \<Longrightarrow> merge_items E B = (sort_desc ex', a')"
  by (simp add: merge_items_def)

text \<open>
  Claim C2. Merge is idempotent: merging the batch \<open>B\<close> a second time into the result of
  merging \<open>B\<close> into \<open>E\<close> adds no item, for every list \<open>E\<close> and every batch \<open>B\<close>.
\<close>

theorem merge_idempotent:
  "snd (merge_items (fst (merge_items E B)) B) = 0"
proof -
  obtain ex' seen' a' where m: "merge_loop E (link ` set E) 0 B = (ex', seen', a')"
    by (cases "merge_loop E (link ` set E) 0 B") auto
  have first: "fst (merge_items E B) = sort_desc ex'"
    using merge_items_unfold [OF m] by simp
  have "link ` set B \<subseteq> link ` set (sort_desc ex')"
    using merge_loop_links [OF m] by (auto simp: set_sort_desc)
  then have "merge_loop (sort_desc ex') (link ` set (sort_desc ex')) 0 B
             = (sort_desc ex', link ` set (sort_desc ex'), 0)"
    by (rule merge_loop_all_seen)
  then have "merge_items (sort_desc ex') B = (sort_desc (sort_desc ex'), 0)"
    by (rule merge_items_unfold)
  then show ?thesis by (simp add: first)
qed

theorem merge_idempotent_witness:
  "snd (merge_items
     (fst (merge_items
        [\<lparr>title = ''a'', link = ''L1'', pubDate = ''2026-01-01T00:00:00'', source = ''WSJ''\<rparr>]
        [\<lparr>title = ''b'', link = ''L2'', pubDate = ''2026-02-01T00:00:00'', source = ''CNBC''\<rparr>,
         \<lparr>title = ''c'', link = ''L2'', pubDate = ''2026-03-01T00:00:00'', source = ''CNBC''\<rparr>]))
     [\<lparr>title = ''b'', link = ''L2'', pubDate = ''2026-02-01T00:00:00'', source = ''CNBC''\<rparr>,
      \<lparr>title = ''c'', link = ''L2'', pubDate = ''2026-03-01T00:00:00'', source = ''CNBC''\<rparr>]) = 0"
  by (rule merge_idempotent)

text \<open>
  Claim C3. The merged list is as long as the existing list plus the returned count of
  added items, and the links that occur in it are the links of the existing list
  together with the links of the batch.
\<close>

theorem merge_link_set_growth:
  "length (fst (merge_items E B)) = length E + snd (merge_items E B) \<and>
   link ` set (fst (merge_items E B)) = link ` set E \<union> link ` set B"
proof -
  obtain ex' seen' a' where m: "merge_loop E (link ` set E) 0 B = (ex', seen', a')"
    by (cases "merge_loop E (link ` set E) 0 B") auto
  have r: "merge_items E B = (sort_desc ex', a')"
    using merge_items_unfold [OF m] .
  have "length ex' = length E + a'"
    using merge_loop_length [OF m] by simp
  moreover have "link ` set ex' = link ` set E \<union> link ` set B"
    using merge_loop_links [OF m] by simp
  ultimately show ?thesis
    by (simp add: r length_sort_desc set_sort_desc)
qed

theorem merge_link_set_growth_witness:
  "length (fst (merge_items
      [\<lparr>title = ''a'', link = ''L1'', pubDate = ''2026-01-01T00:00:00'', source = ''WSJ''\<rparr>]
      [\<lparr>title = ''b'', link = ''L2'', pubDate = ''2026-02-01T00:00:00'', source = ''CNBC''\<rparr>,
       \<lparr>title = ''c'', link = ''L1'', pubDate = ''2026-03-01T00:00:00'', source = ''CNBC''\<rparr>])) = 2 \<and>
   snd (merge_items
      [\<lparr>title = ''a'', link = ''L1'', pubDate = ''2026-01-01T00:00:00'', source = ''WSJ''\<rparr>]
      [\<lparr>title = ''b'', link = ''L2'', pubDate = ''2026-02-01T00:00:00'', source = ''CNBC''\<rparr>,
       \<lparr>title = ''c'', link = ''L1'', pubDate = ''2026-03-01T00:00:00'', source = ''CNBC''\<rparr>]) = 1 \<and>
   link ` set (fst (merge_items
      [\<lparr>title = ''a'', link = ''L1'', pubDate = ''2026-01-01T00:00:00'', source = ''WSJ''\<rparr>]
      [\<lparr>title = ''b'', link = ''L2'', pubDate = ''2026-02-01T00:00:00'', source = ''CNBC''\<rparr>,
       \<lparr>title = ''c'', link = ''L1'', pubDate = ''2026-03-01T00:00:00'', source = ''CNBC''\<rparr>])) = {''L1'', ''L2''}"
proof -
  have a: "snd (merge_items
      [\<lparr>title = ''a'', link = ''L1'', pubDate = ''2026-01-01T00:00:00'', source = ''WSJ''\<rparr>]
      [\<lparr>title = ''b'', link = ''L2'', pubDate = ''2026-02-01T00:00:00'', source = ''CNBC''\<rparr>,
       \<lparr>title = ''c'', link = ''L1'', pubDate = ''2026-03-01T00:00:00'', source = ''CNBC''\<rparr>]) = 1"
    by (simp add: merge_items_def)
  show ?thesis
    using a merge_link_set_growth
      [of "[\<lparr>title = ''a'', link = ''L1'', pubDate = ''2026-01-01T00:00:00'', source = ''WSJ''\<rparr>]"
          "[\<lparr>title = ''b'', link = ''L2'', pubDate = ''2026-02-01T00:00:00'', source = ''CNBC''\<rparr>,
            \<lparr>title = ''c'', link = ''L1'', pubDate = ''2026-03-01T00:00:00'', source = ''CNBC''\<rparr>]"]
    by auto
qed

text \<open>
  Claim C4. After every merge the list of an entity satisfies both invariants of the
  archive. The order holds with no condition on the lists: every item of the merged
  list has a \<open>pubDate\<close> that is, as a string, greater than or equal to the \<open>pubDate\<close>
  of the item after it. And when no two items of the existing list share a link, no
  two items of the merged list do.
\<close>

theorem merge_invariants:
  "(distinct (map link E) \<longrightarrow> distinct (map link (fst (merge_items E B)))) \<and>
   (\<forall>i. Suc i < length (fst (merge_items E B)) \<longrightarrow>
        pubDate (fst (merge_items E B) ! Suc i) \<le> pubDate (fst (merge_items E B) ! i))"
proof
  obtain ex' seen' a' where m: "merge_loop E (link ` set E) 0 B = (ex', seen', a')"
    by (cases "merge_loop E (link ` set E) 0 B") auto
  have r: "fst (merge_items E B) = sort_desc ex'"
    using merge_items_unfold [OF m] by simp
  show "distinct (map link E) \<longrightarrow> distinct (map link (fst (merge_items E B)))"
  proof
    assume "distinct (map link E)"
    with merge_loop_distinct [OF m] have "distinct (map link ex')" by simp
    then show "distinct (map link (fst (merge_items E B)))"
      by (simp add: r distinct_links_sort_desc)
  qed
  have "sorted_wrt (\<lambda>a b. pubDate b \<le> pubDate a) (sort_desc ex')"
    by (rule sorted_sort_desc)
  then have "\<forall>i. Suc i < length (sort_desc ex') \<longrightarrow>
               pubDate (sort_desc ex' ! Suc i) \<le> pubDate (sort_desc ex' ! i)"
    by (simp add: sorted_wrt_iff_nth_less)
  then show "\<forall>i. Suc i < length (fst (merge_items E B)) \<longrightarrow>
        pubDate (fst (merge_items E B) ! Suc i) \<le> pubDate (fst (merge_items E B) ! i)"
    by (simp add: r)
qed

theorem merge_invariants_witness:
  "distinct (map link
      [\<lparr>title = ''a'', link = ''L1'', pubDate = ''2026-01-01T00:00:00'', source = ''WSJ''\<rparr>]) \<and>
   fst (merge_items
      [\<lparr>title = ''a'', link = ''L1'', pubDate = ''2026-01-01T00:00:00'', source = ''WSJ''\<rparr>]
      [\<lparr>title = ''b'', link = ''L2'', pubDate = ''2026-02-01T00:00:00'', source = ''CNBC''\<rparr>,
       \<lparr>title = ''c'', link = ''L1'', pubDate = ''2026-03-01T00:00:00'', source = ''CNBC''\<rparr>]) =
      [\<lparr>title = ''b'', link = ''L2'', pubDate = ''2026-02-01T00:00:00'', source = ''CNBC''\<rparr>,
       \<lparr>title = ''a'', link = ''L1'', pubDate = ''2026-01-01T00:00:00'', source = ''WSJ''\<rparr>] \<and>
   distinct (map link (fst (merge_items
      [\<lparr>title = ''a'', link = ''L1'', pubDate = ''2026-01-01T00:00:00'', source = ''WSJ''\<rparr>]
      [\<lparr>title = ''b'', link = ''L2'', pubDate = ''2026-02-01T00:00:00'', source = ''CNBC''\<rparr>,
       \<lparr>title = ''c'', link = ''L1'', pubDate = ''2026-03-01T00:00:00'', source = ''CNBC''\<rparr>]))) \<and>
   Suc 0 < length (fst (merge_items
      [\<lparr>title = ''a'', link = ''L1'', pubDate = ''2026-01-01T00:00:00'', source = ''WSJ''\<rparr>]
      [\<lparr>title = ''b'', link = ''L2'', pubDate = ''2026-02-01T00:00:00'', source = ''CNBC''\<rparr>,
       \<lparr>title = ''c'', link = ''L1'', pubDate = ''2026-03-01T00:00:00'', source = ''CNBC''\<rparr>])) \<and>
   pubDate (fst (merge_items
      [\<lparr>title = ''a'', link = ''L1'', pubDate = ''2026-01-01T00:00:00'', source = ''WSJ''\<rparr>]
      [\<lparr>title = ''b'', link = ''L2'', pubDate = ''2026-02-01T00:00:00'', source = ''CNBC''\<rparr>,
       \<lparr>title = ''c'', link = ''L1'', pubDate = ''2026-03-01T00:00:00'', source = ''CNBC''\<rparr>]) ! Suc 0) \<le> pubDate (fst (merge_items
      [\<lparr>title = ''a'', link = ''L1'', pubDate = ''2026-01-01T00:00:00'', source = ''WSJ''\<rparr>]
      [\<lparr>title = ''b'', link = ''L2'', pubDate = ''2026-02-01T00:00:00'', source = ''CNBC''\<rparr>,
       \<lparr>title = ''c'', link = ''L1'', pubDate = ''2026-03-01T00:00:00'', source = ''CNBC''\<rparr>]) ! 0)"
proof -
  have h: "distinct (map link
      [\<lparr>title = ''a'', link = ''L1'', pubDate = ''2026-01-01T00:00:00'', source = ''WSJ''\<rparr>])"
    by simp
  have v: "fst (merge_items
      [\<lparr>title = ''a'', link = ''L1'', pubDate = ''2026-01-01T00:00:00'', source = ''WSJ''\<rparr>]
      [\<lparr>title = ''b'', link = ''L2'', pubDate = ''2026-02-01T00:00:00'', source = ''CNBC''\<rparr>,
       \<lparr>title = ''c'', link = ''L1'', pubDate = ''2026-03-01T00:00:00'', source = ''CNBC''\<rparr>]) =
      [\<lparr>title = ''b'', link = ''L2'', pubDate = ''2026-02-01T00:00:00'', source = ''CNBC''\<rparr>,
       \<lparr>title = ''a'', link = ''L1'', pubDate = ''2026-01-01T00:00:00'', source = ''WSJ''\<rparr>]"
    by code_simp
  note t = merge_invariants
    [of "[\<lparr>title = ''a'', link = ''L1'', pubDate = ''2026-01-01T00:00:00'', source = ''WSJ''\<rparr>]"
        "[\<lparr>title = ''b'', link = ''L2'', pubDate = ''2026-02-01T00:00:00'', source = ''CNBC''\<rparr>,
       \<lparr>title = ''c'', link = ''L1'', pubDate = ''2026-03-01T00:00:00'', source = ''CNBC''\<rparr>]"]
  from t h have d: "distinct (map link (fst (merge_items
      [\<lparr>title = ''a'', link = ''L1'', pubDate = ''2026-01-01T00:00:00'', source = ''WSJ''\<rparr>]
      [\<lparr>title = ''b'', link = ''L2'', pubDate = ''2026-02-01T00:00:00'', source = ''CNBC''\<rparr>,
       \<lparr>title = ''c'', link = ''L1'', pubDate = ''2026-03-01T00:00:00'', source = ''CNBC''\<rparr>])))"
    by blast
  have l: "Suc 0 < length (fst (merge_items
      [\<lparr>title = ''a'', link = ''L1'', pubDate = ''2026-01-01T00:00:00'', source = ''WSJ''\<rparr>]
      [\<lparr>title = ''b'', link = ''L2'', pubDate = ''2026-02-01T00:00:00'', source = ''CNBC''\<rparr>,
       \<lparr>title = ''c'', link = ''L1'', pubDate = ''2026-03-01T00:00:00'', source = ''CNBC''\<rparr>]))"
    by (simp only: v) simp
  from t l have o: "pubDate (fst (merge_items
      [\<lparr>title = ''a'', link = ''L1'', pubDate = ''2026-01-01T00:00:00'', source = ''WSJ''\<rparr>]
      [\<lparr>title = ''b'', link = ''L2'', pubDate = ''2026-02-01T00:00:00'', source = ''CNBC''\<rparr>,
       \<lparr>title = ''c'', link = ''L1'', pubDate = ''2026-03-01T00:00:00'', source = ''CNBC''\<rparr>]) ! Suc 0) \<le> pubDate (fst (merge_items
      [\<lparr>title = ''a'', link = ''L1'', pubDate = ''2026-01-01T00:00:00'', source = ''WSJ''\<rparr>]
      [\<lparr>title = ''b'', link = ''L2'', pubDate = ''2026-02-01T00:00:00'', source = ''CNBC''\<rparr>,
       \<lparr>title = ''c'', link = ''L1'', pubDate = ''2026-03-01T00:00:00'', source = ''CNBC''\<rparr>]) ! 0)"
    by blast
  from h v d l o show ?thesis
    by blast
qed

section \<open>Properties of the orchestrator\<close>

lemma normalize_all_links:
  "\<exists>xs. normalize_all its = Some (Inr xs) \<and> map link xs = map link its"
proof (induction its)
  case Nil
  then show ?case by simp
next
  case (Cons it its)
  obtain t' s' gs iso where
    "normalize_item it = Some (Inr \<lparr>title = t', link = link it, pubDate = iso, source = s'\<rparr>)"
    by (rule normalize_item_result)
  with Cons show ?case by auto
qed

lemma fetch_and_merge_raises:
  "fetch (query co) = Inl e \<Longrightarrow> fetch_and_merge fetch existing co = Some (Inl e)"
  by (simp add: fetch_and_merge_def)

lemma fetch_and_merge_returns:
  assumes "fetch (query co) = Inr raw_items"
  shows "\<exists>normalized.
           map link normalized =
             map link (take MAX_ITEMS_PER_FETCH (filter is_from_allowed_source raw_items)) \<and>
           fetch_and_merge fetch existing co = Some (Inr (merge_items existing normalized))"
proof -
  obtain xs where "normalize_all (take MAX_ITEMS_PER_FETCH (filter is_from_allowed_source raw_items))
                     = Some (Inr xs)"
    and "map link xs = map link (take MAX_ITEMS_PER_FETCH (filter is_from_allowed_source raw_items))"
    using normalize_all_links by blast
  with assms show ?thesis by (auto simp: fetch_and_merge_def)
qed

lemma fetch_and_merge_total: "fetch_and_merge fetch existing co \<noteq> None"
proof (cases "fetch (query co)")
  case (Inl e)
  then show ?thesis by (simp add: fetch_and_merge_raises)
next
  case (Inr raw)
  from fetch_and_merge_returns [of fetch co raw existing] Inr show ?thesis by auto
qed

lemma main_loop_total: "\<exists>comps' tot'. main_loop fetch (comps, tot) cos = Some (comps', tot')"
proof (induction cos arbitrary: comps tot)
  case Nil
  then show ?case by simp
next
  case (Cons co cos)
  show ?case
    using fetch_and_merge_total [of fetch "case comps (name co) of None \<Rightarrow> [] | Some l \<Rightarrow> l" co]
      Cons.IH
    by (auto simp: Let_def split: option.splits sum.splits)
qed

lemma main_loop_other:
  "main_loop fetch (comps, tot) cos = Some (comps', tot') \<Longrightarrow> n \<notin> name ` set cos \<Longrightarrow>
   comps' n = comps n"
proof (induction cos arbitrary: comps tot)
  case Nil
  then show ?case by simp
next
  case (Cons co cos)
  from Cons.prems(2) have n: "n \<noteq> name co" "n \<notin> name ` set cos" by auto
  show ?case
  proof (cases "fetch_and_merge fetch (case comps (name co) of None \<Rightarrow> [] | Some l \<Rightarrow> l) co")
    case None
    with Cons.prems(1) show ?thesis by (simp add: Let_def)
  next
    case (Some r)
    show ?thesis
    proof (cases r)
      case (Inl e)
      with Some Cons.prems(1) have "main_loop fetch (comps, tot) cos = Some (comps', tot')"
        by (simp add: Let_def)
      from Cons.IH [OF this n(2)] show ?thesis .
    next
      case (Inr p)
      obtain merged added where p: "p = (merged, added)" by (cases p)
      with Inr Some Cons.prems(1)
      have "main_loop fetch (comps(name co \<mapsto> merged), tot + added) cos = Some (comps', tot')"
        by (simp add: Let_def)
      from Cons.IH [OF this n(2)] n(1) show ?thesis by simp
    qed
  qed
qed

lemma main_loop_entry:
  "main_loop fetch (comps, tot) cos = Some (comps', tot') \<Longrightarrow> distinct (map name cos) \<Longrightarrow>
   co \<in> set cos \<Longrightarrow>
   comps' (name co) =
     (case fetch_and_merge fetch (case comps (name co) of None \<Rightarrow> [] | Some l \<Rightarrow> l) co of
        Some (Inr (merged, added)) \<Rightarrow> Some merged
      | _ \<Rightarrow> comps (name co))"
proof (induction cos arbitrary: comps tot)
  case Nil
  then show ?case by simp
next
  case (Cons c cos)
  from Cons.prems(2) have d: "name c \<notin> name ` set cos" "distinct (map name cos)" by auto
  obtain comps1 tot1 where
    step: "main_loop fetch (comps1, tot1) cos = Some (comps', tot')"
    and c1: "comps1 = (case fetch_and_merge fetch (case comps (name c) of None \<Rightarrow> [] | Some l \<Rightarrow> l) c of
                 Some (Inr (merged, added)) \<Rightarrow> comps(name c \<mapsto> merged)
               | _ \<Rightarrow> comps)"
    using Cons.prems(1) by (auto simp: Let_def split: option.splits sum.splits)
  show ?case
  proof (cases "co = c")
    case True
    from main_loop_other [OF step d(1)] have "comps' (name c) = comps1 (name c)" .
    with c1 True show ?thesis by (auto split: option.splits sum.splits)
  next
    case False
    with Cons.prems(3) have in_rest: "co \<in> set cos" by simp
    then have "name co \<in> name ` set cos" by (rule imageI)
    with d(1) have ne: "name co \<noteq> name c" by auto
    with c1 have same: "comps1 (name co) = comps (name co)"
      by (auto split: option.splits sum.splits)
    from Cons.IH [OF step d(2) in_rest] same show ?thesis
      by (auto split: option.splits sum.splits)
  qed
qed

lemma merge_items_two_new:
  assumes "link x \<noteq> link y" "link x \<notin> link ` set existing" "link y \<notin> link ` set existing"
  shows "merge_items existing [x, y] = (sort_desc (existing @ [x, y]), 2)"
  using assms by (simp add: merge_items_def)

lemma distinct_names: "distinct (map name COMPANIES)"
  by (simp add: COMPANIES_def)

lemma main_unfold:
  "main_loop fetch (case companies data of None \<Rightarrow> Map.empty | Some c \<Rightarrow> c, 0) COMPANIES
     = Some (comps', tot') \<Longrightarrow>
   exit_status (main fetch now data) = Some 0 \<and> archived (main fetch now data) n = comps' n"
  by (simp add: main_def exit_status_def archived_def Let_def)

text \<open>
  Claim C9, as amended. Whatever the fetches do, the run completes with exit status 0:
  no exception of a company's \<^verbatim>\<open>try\<close> body leaves the loop. The list archived for a
  company whose fetch raises is unchanged. The list of a company whose fetch returns
  exactly two allow-listed items grows by 2 when those two items have different links
  and neither link is in the list already.
\<close>

theorem per_entity_isolation:
  "exit_status (main fetch now data) = Some 0 \<and>
   (A \<in> set COMPANIES \<and> fetch (query A) = Inl e \<longrightarrow>
      archived (main fetch now data) (name A) = archived_before data (name A)) \<and>
   (B \<in> set COMPANIES \<and> fetch (query B) = Inr raw_items \<and>
    filter is_from_allowed_source raw_items = [x, y] \<and> link x \<noteq> link y \<and>
    link x \<notin> link ` set (existing_list data (name B)) \<and>
    link y \<notin> link ` set (existing_list data (name B)) \<longrightarrow>
      (\<exists>l'. archived (main fetch now data) (name B) = Some l' \<and>
            length l' = length (existing_list data (name B)) + 2))"
proof -
  define comps where "comps = (case companies data of None \<Rightarrow> Map.empty | Some c \<Rightarrow> c)"
  have before: "archived_before data n = comps n" for n
    by (simp add: archived_before_def comps_def split: option.splits)
  define existing where "existing = (case comps (name B) of None \<Rightarrow> [] | Some l \<Rightarrow> l)"
  have ex: "existing_list data (name B) = existing"
    by (simp add: existing_list_def before existing_def)
  obtain comps' tot' where ml: "main_loop fetch (comps, 0) COMPANIES = Some (comps', tot')"
    using main_loop_total by blast
  from main_unfold [OF ml [unfolded comps_def]]
  have st: "exit_status (main fetch now data) = Some 0"
    and ar: "archived (main fetch now data) n = comps' n" for n
    by simp_all
  have a: "comps' (name A) = comps (name A)" if "A \<in> set COMPANIES" "fetch (query A) = Inl e"
  proof -
    have "fetch_and_merge fetch (case comps (name A) of None \<Rightarrow> [] | Some l \<Rightarrow> l) A = Some (Inl e)"
      using that(2) by (rule fetch_and_merge_raises)
    with main_loop_entry [OF ml distinct_names that(1)] show ?thesis by simp
  qed
  have b: "\<exists>l'. comps' (name B) = Some l' \<and> length l' = length existing + 2"
    if inB: "B \<in> set COMPANIES" and fB: "fetch (query B) = Inr raw_items"
      and two: "filter is_from_allowed_source raw_items = [x, y]"
      and ne: "link x \<noteq> link y"
      and new: "link x \<notin> link ` set existing" "link y \<notin> link ` set existing"
  proof -
    obtain normalized where nl: "map link normalized =
          map link (take MAX_ITEMS_PER_FETCH (filter is_from_allowed_source raw_items))"
      and fm: "fetch_and_merge fetch existing B = Some (Inr (merge_items existing normalized))"
      using fetch_and_merge_returns [of fetch B raw_items existing] fB by blast
    from nl two have "map link normalized = [link x, link y]"
      by (simp add: MAX_ITEMS_PER_FETCH_def)
    then obtain x' y' where n2: "normalized = [x', y']" "link x' = link x" "link y' = link y"
      by auto
    with ne new have "merge_items existing normalized = (sort_desc (existing @ [x', y']), 2)"
      by (simp add: merge_items_two_new)
    with fm main_loop_entry [OF ml distinct_names inB]
    have "comps' (name B) = Some (sort_desc (existing @ [x', y']))"
      by (simp add: existing_def)
    moreover have "length (sort_desc (existing @ [x', y'])) = length existing + 2"
      by (simp add: length_sort_desc)
    ultimately show ?thesis by simp
  qed
  from st a b show ?thesis
    by (simp add: ar before ex)
qed

theorem per_entity_isolation_witness:
  "COMPANIES ! 0 \<in> set COMPANIES \<and>
   sample_fetch (query (COMPANIES ! 0)) = Inl (Exception ''timed out'') \<and>
   COMPANIES ! 3 \<in> set COMPANIES \<and>
   sample_fetch (query (COMPANIES ! 3)) =
     Inr [\<lparr>title = ''Woori expands - Bloomberg'', link = ''L2'',
           pubDate = ''Thu, 27 Feb 2026 10:30:00 GMT'', source = ''Bloomberg''\<rparr>,
          \<lparr>title = ''Woori opens branch - Local Daily'', link = ''L3'',
           pubDate = ''Thu, 27 Feb 2026 11:30:00 GMT'', source = ''Local Daily''\<rparr>,
          \<lparr>title = ''Woori names chief - CNBC'', link = ''L4'',
           pubDate = ''Thu, 27 Feb 2026 12:30:00 GMT'', source = []\<rparr>] \<and>
   filter is_from_allowed_source
     [\<lparr>title = ''Woori expands - Bloomberg'', link = ''L2'',
       pubDate = ''Thu, 27 Feb 2026 10:30:00 GMT'', source = ''Bloomberg''\<rparr>,
      \<lparr>title = ''Woori opens branch - Local Daily'', link = ''L3'',
       pubDate = ''Thu, 27 Feb 2026 11:30:00 GMT'', source = ''Local Daily''\<rparr>,
      \<lparr>title = ''Woori names chief - CNBC'', link = ''L4'',
       pubDate = ''Thu, 27 Feb 2026 12:30:00 GMT'', source = []\<rparr>] =
     [\<lparr>title = ''Woori expands - Bloomberg'', link = ''L2'',
       pubDate = ''Thu, 27 Feb 2026 10:30:00 GMT'', source = ''Bloomberg''\<rparr>,
      \<lparr>title = ''Woori names chief - CNBC'', link = ''L4'',
       pubDate = ''Thu, 27 Feb 2026 12:30:00 GMT'', source = []\<rparr>] \<and>
   existing_list sample_data (name (COMPANIES ! 3)) = [] \<and>
   archived_before sample_data (name (COMPANIES ! 0)) = None \<and>
   exit_status (main sample_fetch ''2026-02-27T13:00:00+00:00'' sample_data) = Some 0 \<and>
   archived (main sample_fetch ''2026-02-27T13:00:00+00:00'' sample_data) (name (COMPANIES ! 0)) = None \<and>
   (\<exists>l'. archived (main sample_fetch ''2026-02-27T13:00:00+00:00'' sample_data) (name (COMPANIES ! 3)) = Some l' \<and>
         length l' = 2)"
proof -
  have a1: "COMPANIES ! 0 \<in> set COMPANIES" by code_simp
  have a2: "sample_fetch (query (COMPANIES ! 0)) = Inl (Exception ''timed out'')" by code_simp
  have b1: "COMPANIES ! 3 \<in> set COMPANIES" by code_simp
  have b2: "sample_fetch (query (COMPANIES ! 3)) =
     Inr [\<lparr>title = ''Woori expands - Bloomberg'', link = ''L2'',
           pubDate = ''Thu, 27 Feb 2026 10:30:00 GMT'', source = ''Bloomberg''\<rparr>,
          \<lparr>title = ''Woori opens branch - Local Daily'', link = ''L3'',
           pubDate = ''Thu, 27 Feb 2026 11:30:00 GMT'', source = ''Local Daily''\<rparr>,
          \<lparr>title = ''Woori names chief - CNBC'', link = ''L4'',
           pubDate = ''Thu, 27 Feb 2026 12:30:00 GMT'', source = []\<rparr>]"
    by code_simp
  have b3: "filter is_from_allowed_source
     [\<lparr>title = ''Woori expands - Bloomberg'', link = ''L2'',
       pubDate = ''Thu, 27 Feb 2026 10:30:00 GMT'', source = ''Bloomberg''\<rparr>,
      \<lparr>title = ''Woori opens branch - Local Daily'', link = ''L3'',
       pubDate = ''Thu, 27 Feb 2026 11:30:00 GMT'', source = ''Local Daily''\<rparr>,
      \<lparr>title = ''Woori names chief - CNBC'', link = ''L4'',
       pubDate = ''Thu, 27 Feb 2026 12:30:00 GMT'', source = []\<rparr>] =
     [\<lparr>title = ''Woori expands - Bloomberg'', link = ''L2'',
       pubDate = ''Thu, 27 Feb 2026 10:30:00 GMT'', source = ''Bloomberg''\<rparr>,
      \<lparr>title = ''Woori names chief - CNBC'', link = ''L4'',
       pubDate = ''Thu, 27 Feb 2026 12:30:00 GMT'', source = []\<rparr>]"
    by code_simp
  have b4: "existing_list sample_data (name (COMPANIES ! 3)) = []"
    by (simp add: existing_list_def archived_before_def sample_data_def)
  have a3: "archived_before sample_data (name (COMPANIES ! 0)) = None"
    by (simp add: archived_before_def sample_data_def)
  note t = per_entity_isolation
    [of sample_fetch "''2026-02-27T13:00:00+00:00''" sample_data "COMPANIES ! 0"
        "Exception ''timed out''" "COMPANIES ! 3"
        "[\<lparr>title = ''Woori expands - Bloomberg'', link = ''L2'',
           pubDate = ''Thu, 27 Feb 2026 10:30:00 GMT'', source = ''Bloomberg''\<rparr>,
          \<lparr>title = ''Woori opens branch - Local Daily'', link = ''L3'',
           pubDate = ''Thu, 27 Feb 2026 11:30:00 GMT'', source = ''Local Daily''\<rparr>,
          \<lparr>title = ''Woori names chief - CNBC'', link = ''L4'',
           pubDate = ''Thu, 27 Feb 2026 12:30:00 GMT'', source = []\<rparr>]"
        "\<lparr>title = ''Woori expands - Bloomberg'', link = ''L2'',
           pubDate = ''Thu, 27 Feb 2026 10:30:00 GMT'', source = ''Bloomberg''\<rparr>"
        "\<lparr>title = ''Woori names chief - CNBC'', link = ''L4'',
           pubDate = ''Thu, 27 Feb 2026 12:30:00 GMT'', source = []\<rparr>"]
  from t have c1: "exit_status (main sample_fetch ''2026-02-27T13:00:00+00:00'' sample_data) = Some 0"
    by (rule conjunct1)
  from t [THEN conjunct2, THEN conjunct1] a1 a2 a3
  have c2: "archived (main sample_fetch ''2026-02-27T13:00:00+00:00'' sample_data) (name (COMPANIES ! 0)) = None"
    by simp
  have b5: "link \<lparr>title = ''Woori expands - Bloomberg'', link = ''L2'',
           pubDate = ''Thu, 27 Feb 2026 10:30:00 GMT'', source = ''Bloomberg''\<rparr> \<noteq>
        link \<lparr>title = ''Woori names chief - CNBC'', link = ''L4'',
           pubDate = ''Thu, 27 Feb 2026 12:30:00 GMT'', source = []\<rparr>"
    by simp
  have b6: "link \<lparr>title = ''Woori expands - Bloomberg'', link = ''L2'',
           pubDate = ''Thu, 27 Feb 2026 10:30:00 GMT'', source = ''Bloomberg''\<rparr>
        \<notin> link ` set (existing_list sample_data (name (COMPANIES ! 3)))"
    by (simp only: b4) simp
  have b7: "link \<lparr>title = ''Woori names chief - CNBC'', link = ''L4'',
           pubDate = ''Thu, 27 Feb 2026 12:30:00 GMT'', source = []\<rparr>
        \<notin> link ` set (existing_list sample_data (name (COMPANIES ! 3)))"
    by (simp only: b4) simp
  from t [THEN conjunct2, THEN conjunct2] b1 b2 b3 b5 b6 b7
  have "\<exists>l'. archived (main sample_fetch ''2026-02-27T13:00:00+00:00'' sample_data) (name (COMPANIES ! 3)) = Some l' \<and>
         length l' = length (existing_list sample_data (name (COMPANIES ! 3))) + 2"
    by blast
  then have c3: "\<exists>l'. archived (main sample_fetch ''2026-02-27T13:00:00+00:00'' sample_data) (name (COMPANIES ! 3)) = Some l' \<and>
         length l' = 2"
    by (auto simp: b4 numeral_2_eq_2)
  from a1 a2 b1 b2 b3 b4 a3 c1 c2 c3 show ?thesis by blast
qed

text \<open>
  Claim C9 as stated fails: here the fetch for the first company raises and the fetch
  for the third succeeds with two allow-listed items, but they share the link
  \<^verbatim>\<open>L1\<close>; the merge keeps the first of them and the list, empty before, grows by 1.
\<close>

theorem per_entity_isolation_shared_link_counterexample:
  "COMPANIES ! 0 \<in> set COMPANIES \<and>
   sample_fetch (query (COMPANIES ! 0)) = Inl (Exception ''timed out'') \<and>
   COMPANIES ! 2 \<in> set COMPANIES \<and>
   sample_fetch (query (COMPANIES ! 2)) =
     Inr [\<lparr>title = ''Kiwoom profit rises - Reuters'', link = ''L1'',
           pubDate = ''Thu, 27 Feb 2026 10:30:00 GMT'', source = ''Reuters''\<rparr>,
          \<lparr>title = ''Kiwoom profit rises, Reuters reports'', link = ''L1'',
           pubDate = ''Thu, 27 Feb 2026 11:30:00 GMT'', source = []\<rparr>] \<and>
   filter is_from_allowed_source
     [\<lparr>title = ''Kiwoom profit rises - Reuters'', link = ''L1'',
       pubDate = ''Thu, 27 Feb 2026 10:30:00 GMT'', source = ''Reuters''\<rparr>,
      \<lparr>title = ''Kiwoom profit rises, Reuters reports'', link = ''L1'',
       pubDate = ''Thu, 27 Feb 2026 11:30:00 GMT'', source = []\<rparr>] =
     [\<lparr>title = ''Kiwoom profit rises - Reuters'', link = ''L1'',
       pubDate = ''Thu, 27 Feb 2026 10:30:00 GMT'', source = ''Reuters''\<rparr>,
      \<lparr>title = ''Kiwoom profit rises, Reuters reports'', link = ''L1'',
       pubDate = ''Thu, 27 Feb 2026 11:30:00 GMT'', source = []\<rparr>] \<and>
   existing_list sample_data (name (COMPANIES ! 2)) = [] \<and>
   exit_status (main sample_fetch ''2026-02-27T13:00:00+00:00'' sample_data) = Some 0 \<and>
   archived (main sample_fetch ''2026-02-27T13:00:00+00:00'' sample_data) (name (COMPANIES ! 2)) =
     Some [\<lparr>title = ''Kiwoom profit rises'', link = ''L1'',
            pubDate = ''2026-02-27T10:30:00'', source = ''Reuters''\<rparr>]"
  by code_simp

end
